theory Spec2Isabelle
  imports Complex_Main "HOL-Library.Multiset" "HOL-Library.Sublist"
begin

section \<open>Data model (app/models.py)\<close>

text \<open>
  The scheduler reads every time of day through \<^verbatim>\<open>datetime.strptime(s, "%H:%M")\<close>, which
  yields a datetime on 1900-01-01. A datetime is modelled as the number of minutes since
  1900-01-01 00:00 (an \<open>int\<close>: adding a negative timedelta goes below zero), so a parsed
  time of day is a value in \<open>0 ..< 1440\<close>. The fields \<open>opening_hours\<close> and
  \<open>closing_hours\<close> hold the parsed value of the string; \<open>valid_time\<close> says that
  the value is one that \<^verbatim>\<open>strptime\<close> can return. \<open>duration\<close> is the pydantic
  \<^verbatim>\<open>int\<close> field, in hours, and \<^verbatim>\<open>timedelta(hours=d)\<close> is \<open>60 * d\<close> minutes.
  Coordinates are only carried around and handed to the geodesic distance, so their type
  is a parameter.

  Outside the model: a time string that \<^verbatim>\<open>strptime\<close> rejects, and the range of
  Python's datetime (a duration of tens of millions of hours leaves the years 1 to 9999);
  both raise in the code before any result exists.
\<close>

type_synonym datetime = int

definition valid_time :: "datetime \<Rightarrow> bool" where
  "valid_time t \<longleftrightarrow> 0 \<le> t \<and> t < 1440"

record 'c Location =
  name :: string
  coordinates :: 'c
  opening_hours :: datetime
  closing_hours :: datetime
  duration :: int

text \<open>
  A schedule entry is the dict built by \<^verbatim>\<open>create_schedule_entry\<close>; the keys
  \<^verbatim>\<open>reason\<close> and \<^verbatim>\<open>proximity_to_next\<close> are added later by the group scheduler
  and are absent (\<open>None\<close>) on entries made by the rescue pass. The times are stored as
  \<^verbatim>\<open>strftime("%H:%M")\<close> strings and parsed again on every use: the round trip keeps the
  minute of the day and drops the date.
\<close>

record 'c entry =
  e_name :: string
  e_coordinates :: 'c
  start_time :: datetime
  end_time :: datetime
  reason :: "string option"
  proximity_to_next :: "string option"

record 'c group_result =
  schedule :: "'c entry list"
  unvisitable :: "'c Location list"

definition timedelta_hours :: "int \<Rightarrow> int" where
  "timedelta_hours h = 60 * h"

definition strftime_HM :: "datetime \<Rightarrow> datetime" where
  "strftime_HM t = t mod 1440"

section \<open>Placement procedure (app/scheduling.py, schedule_single_location)\<close>

definition create_schedule_entry :: "'c Location \<Rightarrow> datetime \<Rightarrow> datetime \<Rightarrow> 'c entry" where
  "create_schedule_entry location start_t end_t =
     \<lparr> e_name = name location,
       e_coordinates = coordinates location,
       start_time = strftime_HM start_t,
       end_time = strftime_HM end_t,
       reason = None,
       proximity_to_next = None \<rparr>"

text \<open>
  The \<^verbatim>\<open>for i, event in enumerate(current_schedule)\<close> loop, from index \<open>i\<close> on.
  \<open>Some\<close> is a \<^verbatim>\<open>return\<close> inside the loop, \<open>None\<close> is the loop running to its end.
\<close>

function scan_events ::
  "'c Location \<Rightarrow> 'c entry list \<Rightarrow> datetime \<Rightarrow> datetime \<Rightarrow> nat \<Rightarrow> 'c entry option" where
  "scan_events location current_schedule start_t end_t i =
     (if i < length current_schedule then
        (let event_start = start_time (current_schedule ! i) in
         if i = 0 \<and> end_t \<le> event_start then
           Some (create_schedule_entry location start_t end_t)
         else if 0 < i \<and>
                 end_time (current_schedule ! (i - 1)) + timedelta_hours (duration location)
                   \<le> event_start then
           Some (create_schedule_entry location
                   (end_time (current_schedule ! (i - 1)))
                   (end_time (current_schedule ! (i - 1)) + timedelta_hours (duration location)))
         else scan_events location current_schedule start_t end_t (Suc i))
      else None)"
  by pat_completeness auto
termination
  by (relation "measure (\<lambda>(location, current_schedule, start_t, end_t, i).
        length current_schedule - i)") auto

declare scan_events.simps [simp del]

definition schedule_single_location ::
  "'c Location \<Rightarrow> 'c entry list \<Rightarrow> datetime \<Rightarrow> datetime \<Rightarrow> 'c entry option" where
  "schedule_single_location location current_schedule daily_start daily_end =
     (let start_t = max daily_start (opening_hours location);
          end_t = start_t + timedelta_hours (duration location)
      in if end_t > min daily_end (closing_hours location) then None
         else
           (case scan_events location current_schedule start_t end_t 0 of
              Some r \<Rightarrow> Some r
            | None \<Rightarrow>
                if current_schedule \<noteq> [] \<and>
                   end_time (last current_schedule) + timedelta_hours (duration location)
                     \<le> min daily_end (closing_hours location)
                then Some (create_schedule_entry location
                             (end_time (last current_schedule))
                             (end_time (last current_schedule)
                                + timedelta_hours (duration location)))
                else if current_schedule = [] \<and> end_t \<le> min daily_end (closing_hours location)
                then Some (create_schedule_entry location start_t end_t)
                else None))"

text \<open>
  The placement procedure as the specification words it (section 4.4): the bound check,
  then before the first entry, then the first gap from the left, then after the last
  entry; an empty schedule takes the values of step 1.
\<close>

definition gap_fits :: "'c Location \<Rightarrow> 'c entry \<times> 'c entry \<Rightarrow> bool" where
  "gap_fits location g \<longleftrightarrow>
     end_time (fst g) + timedelta_hours (duration location) \<le> start_time (snd g)"

definition placement_spec ::
  "'c Location \<Rightarrow> 'c entry list \<Rightarrow> datetime \<Rightarrow> datetime \<Rightarrow> 'c entry option" where
  "placement_spec location entries daily_start daily_end =
     (let d = timedelta_hours (duration location);
          start_t = max daily_start (opening_hours location);
          end_t = start_t + d;
          bound = min daily_end (closing_hours location)
      in if end_t > bound then None
         else
           (case entries of
              [] \<Rightarrow> Some (create_schedule_entry location start_t end_t)
            | first # rest \<Rightarrow>
                if end_t \<le> start_time first
                then Some (create_schedule_entry location start_t end_t)
                else
                  (case find (gap_fits location) (zip entries rest) of
                     Some g \<Rightarrow>
                       Some (create_schedule_entry location (end_time (fst g)) (end_time (fst g) + d))
                   | None \<Rightarrow>
                       if end_time (last entries) + d \<le> bound
                       then Some (create_schedule_entry location
                                    (end_time (last entries)) (end_time (last entries) + d))
                       else None)))"

section \<open>Group scheduler (app/scheduling.py, schedule_cluster_with_priorities)\<close>

text \<open>
  Python's \<^verbatim>\<open>min(xs, key=f)\<close> on the non-empty list \<open>x # xs\<close>: the candidate is
  replaced only by an element with a strictly smaller key, so the first minimal element
  is returned.
\<close>

fun min_from :: "('a \<Rightarrow> 'k::linorder) \<Rightarrow> 'a \<Rightarrow> 'a list \<Rightarrow> 'a" where
  "min_from key best [] = best"
| "min_from key best (x # xs) = min_from key (if key x < key best then x else best) xs"

text \<open>
  \<^verbatim>\<open>calculate_score\<close> and the distance printed into the reason and the proximity
  annotation are floating-point computations on a geodesic distance of the geopy library.
  The scheduler takes both as parameters: \<open>score loc last_location current_time\<close> is
  the value of \<^verbatim>\<open>calculate_score\<close>, and \<open>km a b\<close> is the text of
  \<^verbatim>\<open>geodesic(a, b).kilometers\<close> printed with two decimals. Nothing below depends on
  which functions they are.

  The \<^verbatim>\<open>while cluster\<close> loop. The cluster list is consumed: the chosen location is
  removed (\<^verbatim>\<open>list.remove\<close> deletes the first equal element), then placed or moved to
  the unvisitable list. The result of a placement is appended; the schedule is not
  sorted again.
\<close>

function schedule_loop ::
  "('c Location \<Rightarrow> 'c entry \<Rightarrow> datetime \<Rightarrow> real) \<Rightarrow> ('c \<Rightarrow> 'c \<Rightarrow> string) \<Rightarrow>
   datetime \<Rightarrow> datetime \<Rightarrow> 'c Location list \<Rightarrow> 'c entry list \<Rightarrow> 'c Location list \<Rightarrow>
   datetime \<Rightarrow> 'c entry list \<times> 'c Location list" where
  "schedule_loop score km daily_start daily_end [] sched unvis current_time = (sched, unvis)"
| "schedule_loop score km daily_start daily_end (c # cs) sched unvis current_time =
     (let next_location =
            (if sched = [] then min_from opening_hours c cs
             else min_from (\<lambda>loc. score loc (last sched) current_time) c cs);
          why =
            (if sched = [] then ''Chosen as the first location based on earliest opening hours''
             else ''Chosen based on proximity (''
                    @ km (e_coordinates (last sched)) (coordinates next_location)
                    @ '' km) and business hours compatibility'');
          cluster = remove1 next_location (c # cs)
      in case schedule_single_location next_location sched daily_start daily_end of
           Some result \<Rightarrow>
             schedule_loop score km daily_start daily_end cluster
               (sched @ [result\<lparr>reason := Some why\<rparr>]) unvis (end_time result)
         | None \<Rightarrow>
             schedule_loop score km daily_start daily_end cluster
               sched (unvis @ [next_location]) current_time)"
  by pat_completeness auto
termination
proof (relation "measure (\<lambda>(score, km, daily_start, daily_end, cluster, sched, unvis, t).
          length cluster)", goal_cases)
  case 1
  show ?case by simp
next
  case (2 score km daily_start daily_end c cs sched unvis current_time x xa xb)
  have first: "min_from opening_hours c cs \<in> set (c # cs)"
    by (induction cs arbitrary: c) auto
  have later: "min_from (\<lambda>loc. score loc (last sched) current_time) c cs \<in> set (c # cs)"
    by (induction cs arbitrary: c) auto
  have "x \<in> set (c # cs)"
    unfolding 2(1) using first later by (simp only: if_split [where P = "\<lambda>y. y \<in> set (c # cs)"] simp_thms)
  then have "length (remove1 x (c # cs)) = length (c # cs) - 1"
    by (simp only: length_remove1 if_True)
  then have "length (remove1 x (c # cs)) < length (c # cs)"
    by simp
  then show ?case
    unfolding 2(3) by (simp only: in_measure prod.case)
next
  case (3 score km daily_start daily_end c cs sched unvis current_time x xa xb x2)
  have first: "min_from opening_hours c cs \<in> set (c # cs)"
    by (induction cs arbitrary: c) auto
  have later: "min_from (\<lambda>loc. score loc (last sched) current_time) c cs \<in> set (c # cs)"
    by (induction cs arbitrary: c) auto
  have "x \<in> set (c # cs)"
    unfolding 3(1) using first later by (simp only: if_split [where P = "\<lambda>y. y \<in> set (c # cs)"] simp_thms)
  then have "length (remove1 x (c # cs)) = length (c # cs) - 1"
    by (simp only: length_remove1 if_True)
  then have "length (remove1 x (c # cs)) < length (c # cs)"
    by simp
  then show ?case
    unfolding 3(3) by (simp only: in_measure prod.case)
qed

text \<open>The two annotation loops after the while loop.\<close>

fun add_proximity :: "('c \<Rightarrow> 'c \<Rightarrow> string) \<Rightarrow> 'c entry list \<Rightarrow> 'c entry list" where
  "add_proximity km [] = []"
| "add_proximity km [e] = [e\<lparr>proximity_to_next := Some ''N/A''\<rparr>]"
| "add_proximity km (e # e' # es) =
     e\<lparr>proximity_to_next := Some (km (e_coordinates e) (e_coordinates e') @ '' km'')\<rparr>
       # add_proximity km (e' # es)"

definition schedule_cluster_with_priorities ::
  "('c Location \<Rightarrow> 'c entry \<Rightarrow> datetime \<Rightarrow> real) \<Rightarrow> ('c \<Rightarrow> 'c \<Rightarrow> string) \<Rightarrow>
   'c Location list \<Rightarrow> datetime \<Rightarrow> datetime \<Rightarrow> 'c group_result" where
  "schedule_cluster_with_priorities score km cluster daily_start daily_end =
     (case schedule_loop score km daily_start daily_end cluster [] [] daily_start of
        (sched, unvis) \<Rightarrow> \<lparr> schedule = add_proximity km sched, unvisitable = unvis \<rparr>)"

text \<open>
  The real-number reading of \<^verbatim>\<open>calculate_score\<close>, for a geodesic distance
  \<open>geodesic_km\<close> in kilometres: the difference of two datetimes in hours is their
  difference in minutes over 60.
\<close>

definition calculate_score ::
  "('c \<Rightarrow> 'c \<Rightarrow> real) \<Rightarrow> 'c Location \<Rightarrow> 'c entry \<Rightarrow> datetime \<Rightarrow> real" where
  "calculate_score geodesic_km location last_location current_time =
     (let proximity_score = geodesic_km (e_coordinates last_location) (coordinates location);
          time_flexibility =
            max (real_of_int (closing_hours location - current_time) / 60) (1 / 10)
      in proximity_score + 1 / time_flexibility)"

section \<open>Multi-start search (app/scheduling.py, iterative_schedule_cluster)\<close>

text \<open>
  The \<^verbatim>\<open>for _ in range(max_iterations)\<close> loop, with \<open>n\<close> iterations left;
  \<open>attempt i\<close> is the result of the call of the group scheduler in iteration \<open>i\<close>.
  \<open>best\<close> is \<open>None\<close> while \<^verbatim>\<open>best_score\<close> is still infinite, which every
  score is below.
\<close>

definition attempt_score :: "'c group_result \<Rightarrow> int" where
  "attempt_score result =
     int (length (unvisitable result)) * 1000 - int (length (schedule result))"

fun multi_start ::
  "(nat \<Rightarrow> 'c group_result) \<Rightarrow> nat \<Rightarrow> nat \<Rightarrow> (int \<times> 'c group_result) option \<Rightarrow>
   (int \<times> 'c group_result) option" where
  "multi_start attempt i 0 best = best"
| "multi_start attempt i (Suc n) best =
     (let result = attempt i;
          score = attempt_score result;
          best' = (case best of
                     None \<Rightarrow> Some (score, result)
                   | Some (best_score, best_result) \<Rightarrow>
                       if score < best_score then Some (score, result) else best)
      in if length (unvisitable result) = 0 then best'
         else multi_start attempt (Suc i) n best')"

text \<open>
  Every iteration calls the group scheduler on \<^verbatim>\<open>cluster[:]\<close>, a fresh copy, so the
  list the scheduler consumes is not the caller's. The result is \<open>None\<close> when no
  iteration ran (both fields of the returned dict are \<^verbatim>\<open>None\<close>).
\<close>

definition iterative_schedule_cluster ::
  "('c Location \<Rightarrow> 'c entry \<Rightarrow> datetime \<Rightarrow> real) \<Rightarrow> ('c \<Rightarrow> 'c \<Rightarrow> string) \<Rightarrow>
   'c Location list \<Rightarrow> datetime \<Rightarrow> datetime \<Rightarrow> nat \<Rightarrow> 'c group_result option" where
  "iterative_schedule_cluster score km cluster daily_start daily_end max_iterations =
     map_option snd
       (multi_start (\<lambda>_. schedule_cluster_with_priorities score km cluster daily_start daily_end)
          0 max_iterations None)"

section \<open>Rescue pass (app/scheduling.py, handle_unvisitable)\<close>

text \<open>
  The clusters dict is the list of its items in iteration order. The inner loop stops at
  the first cluster that takes the location, appends the entry to that cluster's schedule
  and sorts the schedule by start time (\<^verbatim>\<open>list.sort\<close> is stable, as \<open>sort_key\<close> is;
  the key is the zero-padded \<^verbatim>\<open>HH:MM\<close> string, whose order is the order of the minute of
  the day).
\<close>

fun try_clusters ::
  "'c Location \<Rightarrow> (nat \<times> 'c group_result) list \<Rightarrow> datetime \<Rightarrow> datetime \<Rightarrow>
   (nat \<times> 'c group_result) list option" where
  "try_clusters location [] daily_start daily_end = None"
| "try_clusters location ((cluster_id, cluster_schedule) # rest) daily_start daily_end =
     (case schedule_single_location location (schedule cluster_schedule) daily_start daily_end of
        Some result \<Rightarrow>
          Some ((cluster_id,
                 cluster_schedule\<lparr>schedule :=
                   sort_key start_time (schedule cluster_schedule @ [result])\<rparr>) # rest)
      | None \<Rightarrow>
          map_option ((#) (cluster_id, cluster_schedule))
            (try_clusters location rest daily_start daily_end))"

fun rescue_loop ::
  "'c Location list \<Rightarrow> (nat \<times> 'c group_result) list \<Rightarrow> 'c Location list \<Rightarrow>
   datetime \<Rightarrow> datetime \<Rightarrow> (nat \<times> 'c group_result) list \<times> 'c Location list" where
  "rescue_loop [] clusters new_unvisitable daily_start daily_end = (clusters, new_unvisitable)"
| "rescue_loop (location # locations) clusters new_unvisitable daily_start daily_end =
     (case try_clusters location clusters daily_start daily_end of
        Some clusters' \<Rightarrow>
          rescue_loop locations clusters' new_unvisitable daily_start daily_end
      | None \<Rightarrow>
          rescue_loop locations clusters (new_unvisitable @ [location]) daily_start daily_end)"

definition handle_unvisitable ::
  "'c Location list \<Rightarrow> (nat \<times> 'c group_result) list \<Rightarrow> datetime \<Rightarrow> datetime \<Rightarrow>
   (nat \<times> 'c group_result) list \<times> 'c Location list" where
  "handle_unvisitable locations clusters daily_start daily_end =
     rescue_loop locations clusters [] daily_start daily_end"

section \<open>Scheduling all groups (app/scheduling.py, parallel_schedule_clusters)\<close>

text \<open>
  Every group is handed to the multi-start search with the default of 20 iterations; the
  futures are collected in the order of the groups. The tasks share no data, so the
  result is the list of the results.
\<close>

definition parallel_schedule_clusters ::
  "('c Location \<Rightarrow> 'c entry \<Rightarrow> datetime \<Rightarrow> real) \<Rightarrow> ('c \<Rightarrow> 'c \<Rightarrow> string) \<Rightarrow>
   (nat \<times> 'c Location list) list \<Rightarrow> datetime \<Rightarrow> datetime \<Rightarrow>
   (nat \<times> 'c group_result option) list" where
  "parallel_schedule_clusters score km clusters daily_start daily_end =
     map (\<lambda>(cluster_id, cluster_locations).
            (cluster_id,
             iterative_schedule_cluster score km cluster_locations daily_start daily_end 20))
       clusters"

section \<open>Cluster search and request handling (app/routes.py)\<close>

datatype error =
    HTTPException nat string
  | KeyError
  | TypeError
  | AttributeError
  | LibraryError

text \<open>
  \<^verbatim>\<open>locations = {loc.name: loc for loc in data.points}\<close>: a later location with a
  name already present replaces the value and keeps the position of the key.
\<close>

fun dict_set :: "'k \<Rightarrow> 'v \<Rightarrow> ('k \<times> 'v) list \<Rightarrow> ('k \<times> 'v) list" where
  "dict_set k v [] = [(k, v)]"
| "dict_set k v ((k', v') # rest) =
     (if k' = k then (k, v) # rest else (k', v') # dict_set k v rest)"

definition locations_dict :: "'c Location list \<Rightarrow> (string \<times> 'c Location) list" where
  "locations_dict pts = foldl (\<lambda>d loc. dict_set (name loc) loc d) [] pts"

text \<open>
  Lines 208 to 210 of \<^verbatim>\<open>parallel_find_best_clusters\<close>:
  \<^verbatim>\<open>best_clusters[int(cluster_id)].append(locations[name])\<close> raises \<^verbatim>\<open>KeyError\<close> for
  a label outside \<^verbatim>\<open>range(num_clusters)\<close>, and \<^verbatim>\<open>zip\<close> stops at the shorter of
  the keys and the labels.
\<close>

fun append_to_cluster ::
  "nat \<Rightarrow> 'a \<Rightarrow> (nat \<times> 'a list) list \<Rightarrow> (nat \<times> 'a list) list option" where
  "append_to_cluster i x [] = None"
| "append_to_cluster i x ((j, members) # rest) =
     (if j = i then Some ((j, members @ [x]) # rest)
      else map_option ((#) (j, members)) (append_to_cluster i x rest))"

fun assign_locations ::
  "(string \<times> 'c Location) list \<Rightarrow> nat list \<Rightarrow> (nat \<times> 'c Location list) list \<Rightarrow>
   error + (nat \<times> 'c Location list) list" where
  "assign_locations ((nm, loc) # locations) (cluster_id # labels) best_clusters =
     (case append_to_cluster cluster_id loc best_clusters of
        None \<Rightarrow> Inl KeyError
      | Some best_clusters' \<Rightarrow> assign_locations locations labels best_clusters')"
| "assign_locations locations labels best_clusters = Inr best_clusters"

text \<open>
  The reduction loop over the results of the clustering runs, in submission order. A run
  is its labels, its silhouette score and its balance score (the centroids are not used
  afterwards); the scores are read as real numbers. \<open>best\<close> is \<open>None\<close> while
  \<^verbatim>\<open>best_composite_score\<close> is minus infinity.
\<close>

fun select_best ::
  "(string \<times> 'c Location) list \<Rightarrow> nat \<Rightarrow> (nat list \<times> real \<times> real) list \<Rightarrow>
   (real \<times> (nat \<times> 'c Location list) list) option \<Rightarrow>
   error + (real \<times> (nat \<times> 'c Location list) list) option" where
  "select_best locations num_clusters [] best = Inr best"
| "select_best locations num_clusters ((labels, silhouette, cluster_balance) # results) best =
     (let composite_score = (7 / 10) * silhouette + (3 / 10) * (1 - cluster_balance)
      in if (case best of
               None \<Rightarrow> True
             | Some (best_composite_score, best_clusters) \<Rightarrow>
                 composite_score > best_composite_score)
         then (case assign_locations locations labels
                      (map (\<lambda>i. (i, [])) [0..<num_clusters]) of
                 Inl e \<Rightarrow> Inl e
               | Inr best_clusters \<Rightarrow>
                   select_best locations num_clusters results
                     (Some (composite_score, best_clusters)))
         else select_best locations num_clusters results best)"

definition parallel_find_best_clusters ::
  "(string \<times> 'c Location) list \<Rightarrow> nat \<Rightarrow> (nat list \<times> real \<times> real) list \<Rightarrow>
   error + (nat \<times> 'c Location list) list option" where
  "parallel_find_best_clusters locations num_clusters results =
     (case select_best locations num_clusters results None of
        Inl e \<Rightarrow> Inl e
      | Inr best \<Rightarrow> Inr (map_option snd best))"

text \<open>The branch for one group: every location goes to group 0.\<close>

definition single_cluster ::
  "(string \<times> 'c Location) list \<Rightarrow> (nat \<times> 'c Location list) list" where
  "single_cluster locations = [(0, map snd locations)]"

record 'c ClusteringInput =
  points :: "'c Location list"
  num_clusters :: int
  daily_start_time :: datetime
  daily_end_time :: datetime

record response =
  grouped_clusters :: "(nat \<times> (string \<times> datetime \<times> datetime) list) list"
  final_unvisitable :: "(string \<times> string) list"

text \<open>The input validation of \<^verbatim>\<open>cluster_data\<close> (lines 40 to 45).\<close>

definition validate_request :: "'c ClusteringInput \<Rightarrow> error option" where
  "validate_request data =
     (if num_clusters data < 1
      then Some (HTTPException 400 ''Number of clusters must be at least 1'')
      else if int (length (map coordinates (points data))) < num_clusters data
      then Some (HTTPException 400 ''Number of clusters cannot exceed number of points'')
      else None)"

text \<open>
  Lines 81 to 91: schedule every group, collect the unvisitable locations of all groups
  and run the rescue pass. Reading \<^verbatim>\<open>cluster["unvisitable"]\<close> of a result whose fields
  are \<^verbatim>\<open>None\<close> raises \<^verbatim>\<open>TypeError\<close>.
\<close>

fun require_results ::
  "(nat \<times> 'c group_result option) list \<Rightarrow> (nat \<times> 'c group_result) list option" where
  "require_results [] = Some []"
| "require_results ((cluster_id, None) # rest) = None"
| "require_results ((cluster_id, Some r) # rest) =
     map_option ((#) (cluster_id, r)) (require_results rest)"

definition schedule_and_rescue ::
  "('c Location \<Rightarrow> 'c entry \<Rightarrow> datetime \<Rightarrow> real) \<Rightarrow> ('c \<Rightarrow> 'c \<Rightarrow> string) \<Rightarrow>
   (nat \<times> 'c Location list) list \<Rightarrow> datetime \<Rightarrow> datetime \<Rightarrow>
   error + (nat \<times> 'c group_result) list \<times> 'c Location list" where
  "schedule_and_rescue score km best_clusters daily_start daily_end =
     (case require_results
             (parallel_schedule_clusters score km best_clusters daily_start daily_end) of
        None \<Rightarrow> Inl TypeError
      | Some grouped \<Rightarrow>
          Inr (handle_unvisitable (concat (map (\<lambda>c. unvisitable (snd c)) grouped))
                 grouped daily_start daily_end))"

text \<open>
  The endpoint. The numeric libraries are parameters: \<open>scale\<close> is
  \<^verbatim>\<open>MinMaxScaler().fit_transform\<close> and \<open>run_clusterings data k n\<close> is the list of the
  \<open>n\<close> results of \<^verbatim>\<open>cluster_and_evaluate\<close> (k-means on random initial centroids,
  silhouette score, balance score); \<open>None\<close> is an exception raised inside them.
\<close>

definition cluster_data ::
  "('c list \<Rightarrow> 'n option) \<Rightarrow> ('n \<Rightarrow> nat \<Rightarrow> nat \<Rightarrow> (nat list \<times> real \<times> real) list option) \<Rightarrow>
   ('c Location \<Rightarrow> 'c entry \<Rightarrow> datetime \<Rightarrow> real) \<Rightarrow> ('c \<Rightarrow> 'c \<Rightarrow> string) \<Rightarrow>
   'c ClusteringInput \<Rightarrow> error + response" where
  "cluster_data scale run_clusterings score km data =
     (let coords = map coordinates (points data);
          locations = locations_dict (points data);
          k = num_clusters data;
          daily_start = daily_start_time data;
          daily_end = daily_end_time data
      in case validate_request data of
           Some e \<Rightarrow> Inl e
         | None \<Rightarrow>
            (case scale coords of
               None \<Rightarrow> Inl LibraryError
             | Some normalized_data \<Rightarrow>
                (case (if k = 1 then Inr (Some (single_cluster locations))
                       else (case run_clusterings normalized_data (nat k) 10 of
                               None \<Rightarrow> Inl LibraryError
                             | Some results \<Rightarrow>
                                 parallel_find_best_clusters locations (nat k) results)) of
                   Inl e \<Rightarrow> Inl e
                 | Inr None \<Rightarrow> Inl AttributeError
                 | Inr (Some best_clusters) \<Rightarrow>
                    (case schedule_and_rescue score km best_clusters daily_start daily_end of
                       Inl e \<Rightarrow> Inl e
                     | Inr (clusters, unvis) \<Rightarrow>
                         Inr \<lparr> grouped_clusters =
                                 map (\<lambda>(cluster_id, cluster_result).
                                        (cluster_id,
                                         map (\<lambda>loc. (e_name loc, start_time loc, end_time loc))
                                           (schedule cluster_result)))
                                   clusters,
                               final_unvisitable =
                                 map (\<lambda>loc. (name loc, ''Time constraints prevent scheduling''))
                                   unvis \<rparr>))))"

section \<open>Centroid update of the weighted clusterer (app/clustering.py, app/improveclustering.py)\<close>

text \<open>
  The update step of \<^verbatim>\<open>tensorflow_kmeans\<close>, which \<^verbatim>\<open>compute_new_centroids\<close> repeats
  word for word. The float32 tensors are read as lists of real numbers. A TensorFlow
  division by zero raises nothing and yields an infinity or a NaN; the model returns
  \<open>None\<close> where the divisor is zero, so that "no division by zero" is a statement about
  the result.
\<close>

type_synonym point = "real list"

definition penalty_weight :: "real \<Rightarrow> real \<Rightarrow> real \<Rightarrow> real" where
  "penalty_weight penalty_factor penalty_threshold distance =
     max (1 - penalty_factor * max (distance - penalty_threshold) 0) (1 / 100)"

definition euclidean_norm :: "point \<Rightarrow> real" where
  "euclidean_norm v = sqrt (sum_list (map (\<lambda>x. x * x) v))"

fun reduce_sum_rows :: "point list \<Rightarrow> point" where
  "reduce_sum_rows [] = []"
| "reduce_sum_rows [v] = v"
| "reduce_sum_rows (v # w # vs) = map2 (+) v (reduce_sum_rows (w # vs))"

definition cluster_members :: "point list \<Rightarrow> nat list \<Rightarrow> nat \<Rightarrow> point list" where
  "cluster_members data cluster_assignments c =
     map fst (filter (\<lambda>pa. snd pa = c) (zip data cluster_assignments))"

definition cluster_weights ::
  "real \<Rightarrow> real \<Rightarrow> point list \<Rightarrow> nat list \<Rightarrow> point list \<Rightarrow> nat \<Rightarrow> real list" where
  "cluster_weights penalty_threshold penalty_factor data cluster_assignments centroids c =
     map (\<lambda>p. penalty_weight penalty_factor penalty_threshold
                 (euclidean_norm (map2 (-) p (centroids ! c))))
       (cluster_members data cluster_assignments c)"

definition new_centroid ::
  "real \<Rightarrow> real \<Rightarrow> point list \<Rightarrow> nat list \<Rightarrow> point list \<Rightarrow> nat \<Rightarrow> point option" where
  "new_centroid penalty_threshold penalty_factor data cluster_assignments centroids c =
     (let cluster_points = cluster_members data cluster_assignments c
      in if cluster_points = [] then Some (centroids ! c)
         else
           (let weights = cluster_weights penalty_threshold penalty_factor data
                            cluster_assignments centroids c;
                weighted_sum =
                  reduce_sum_rows (map2 (\<lambda>p w. map (\<lambda>x. x * w) p) cluster_points weights);
                weight_sum = sum_list weights
            in if weight_sum = 0 then None
               else Some (map (\<lambda>x. x / weight_sum) weighted_sum)))"

definition compute_new_centroids ::
  "point list \<Rightarrow> nat list \<Rightarrow> point list \<Rightarrow> real \<Rightarrow> real \<Rightarrow> point option list" where
  "compute_new_centroids data cluster_assignments centroids penalty_threshold penalty_factor =
     map (new_centroid penalty_threshold penalty_factor data cluster_assignments centroids)
       [0..<length centroids]"

section \<open>Properties and invariants\<close>

subsection \<open>One iteration of the group scheduler\<close>

text \<open>
  Names for the two choices of an iteration of \<open>schedule_loop\<close>, the location taken
  next and the text of the reason, and for what identifies a location and an entry: the
  name and the coordinates, which \<^verbatim>\<open>create_schedule_entry\<close> copies.
\<close>

definition next_location ::
  "('c Location \<Rightarrow> 'c entry \<Rightarrow> datetime \<Rightarrow> real) \<Rightarrow> 'c Location \<Rightarrow> 'c Location list \<Rightarrow>
   'c entry list \<Rightarrow> datetime \<Rightarrow> 'c Location" where
  "next_location score c cs sched current_time =
     (if sched = [] then min_from opening_hours c cs
      else min_from (\<lambda>loc. score loc (last sched) current_time) c cs)"

definition reason_text :: "('c \<Rightarrow> 'c \<Rightarrow> string) \<Rightarrow> 'c entry list \<Rightarrow> 'c Location \<Rightarrow> string" where
  "reason_text km sched x =
     (if sched = [] then ''Chosen as the first location based on earliest opening hours''
      else ''Chosen based on proximity (''
             @ km (e_coordinates (last sched)) (coordinates x)
             @ '' km) and business hours compatibility'')"

definition entry_key :: "'c entry \<Rightarrow> string \<times> 'c" where
  "entry_key e = (e_name e, e_coordinates e)"

definition location_key :: "'c Location \<Rightarrow> string \<times> 'c" where
  "location_key l = (name l, coordinates l)"

subsection \<open>Schedules\<close>

text \<open>
  \<open>ordered_schedule\<close> is the property of the data model: sorted by start time, and each
  entry ends before the next one starts. \<open>well_formed\<close> is a location whose times of day
  are parsed times and whose visit takes a positive number of hours. \<open>tidy\<close> is the
  invariant of the proofs: every entry ends before every later one starts, and every entry
  has a positive length inside one day. \<open>scheduled_groups\<close> is the list of the groups
  with the result of one run of the group scheduler each.
\<close>

definition ordered_schedule :: "'c entry list \<Rightarrow> bool" where
  "ordered_schedule xs \<longleftrightarrow>
     sorted (map start_time xs) \<and>
     (\<forall>i. Suc i < length xs \<longrightarrow> end_time (xs ! i) \<le> start_time (xs ! Suc i))"

definition well_formed :: "'c Location \<Rightarrow> bool" where
  "well_formed l \<longleftrightarrow>
     valid_time (opening_hours l) \<and> valid_time (closing_hours l) \<and> 0 < duration l"

definition proper_entry :: "'c entry \<Rightarrow> bool" where
  "proper_entry e \<longleftrightarrow> 0 \<le> start_time e \<and> start_time e < end_time e \<and> end_time e < 1440"

definition tidy :: "'c entry list \<Rightarrow> bool" where
  "tidy xs \<longleftrightarrow>
     sorted_wrt (\<lambda>a b. end_time a \<le> start_time b) xs \<and> (\<forall>e\<in>set xs. proper_entry e)"

definition scheduled_groups ::
  "('c Location \<Rightarrow> 'c entry \<Rightarrow> datetime \<Rightarrow> real) \<Rightarrow> ('c \<Rightarrow> 'c \<Rightarrow> string) \<Rightarrow>
   (nat \<times> 'c Location list) list \<Rightarrow> datetime \<Rightarrow> datetime \<Rightarrow> (nat \<times> 'c group_result) list" where
  "scheduled_groups score km best_clusters ds de =
     map (\<lambda>c. (fst c, schedule_cluster_with_priorities score km (snd c) ds de)) best_clusters"

subsection \<open>Rescue pass\<close>

text \<open>
  The number of entries over all groups, and the relation between a group before and
  after the pass: the same id, the same unvisitable list, and every entry kept.
\<close>

definition total_scheduled :: "(nat \<times> 'c group_result) list \<Rightarrow> nat" where
  "total_scheduled clusters = sum_list (map (\<lambda>c. length (schedule (snd c))) clusters)"

definition keeps_entries :: "nat \<times> 'c group_result \<Rightarrow> nat \<times> 'c group_result \<Rightarrow> bool" where
  "keeps_entries before after \<longleftrightarrow>
     fst after = fst before \<and>
     mset (schedule (snd before)) \<subseteq># mset (schedule (snd after)) \<and>
     unvisitable (snd after) = unvisitable (snd before)"

subsection \<open>Requests and clusterings\<close>

text \<open>
  A configuration error is the HTTP 400 the endpoint raises; \<open>distinct_points\<close> counts the
  different coordinates of a request.
\<close>

fun is_configuration_error :: "error + 'a \<Rightarrow> bool" where
  "is_configuration_error (Inl (HTTPException code msg)) = (code = 400)"
| "is_configuration_error other = False"

definition distinct_points :: "'c ClusteringInput \<Rightarrow> nat" where
  "distinct_points data = length (remdups (map coordinates (points data)))"

text \<open>
  \<open>is_partition\<close>: the groups together hold the input locations, each as often as the
  input does, and every input location occurs exactly once over all groups.
  \<open>labels_in_range\<close>: a clustering run has one label per location, each a group index
  below the group count, as an argmin over the centroids gives. \<open>grouping_of\<close> is the
  invariant of the reduction loop: the group ids are \<open>0 ..< k\<close> and the groups hold the
  values of the dict of locations.
\<close>

definition is_partition :: "'a list \<Rightarrow> (nat \<times> 'a list) list \<Rightarrow> bool" where
  "is_partition pts clusters \<longleftrightarrow>
     mset (concat (map snd clusters)) = mset pts \<and>
     (\<forall>p\<in>set pts. sum_list (map (\<lambda>c. count_list (snd c) p) clusters) = 1)"

definition labels_in_range :: "nat \<Rightarrow> nat \<Rightarrow> (nat list \<times> real \<times> real) \<Rightarrow> bool" where
  "labels_in_range n k run \<longleftrightarrow> length (fst run) = n \<and> (\<forall>l\<in>set (fst run). l < k)"

definition grouping_of ::
  "(string \<times> 'c Location) list \<Rightarrow> nat \<Rightarrow> (nat \<times> 'c Location list) list \<Rightarrow> bool" where
  "grouping_of locations k clusters \<longleftrightarrow>
     map fst clusters = [0..<k] \<and> mset (concat (map snd clusters)) = mset (map snd locations)"

section \<open>Example data\<close>

text \<open>
  The locations of the scenarios of the specification, with coordinates in a plane and a
  stand-in for the geodesic distance and for its printed form. Times are minutes of the
  day: 480 is 08:00, 1200 is 20:00.
  \<^item> A opens 09:00, closes 18:00, one hour; B opens 08:00, closes 12:00, one hour
    (scenario B).
  \<^item> C opens 18:00, closes 19:00, two hours (scenario C): it fits nowhere.
  \<^item> D opens 08:00, closes 20:00, two hours.
  \<^item> E opens 10:00, closes 20:00, one hour.
  \<^item> F opens 08:00, closes 09:00, one hour (scenario D): it does not fit into its own
    group behind B and A, and the rescue pass places it before E in the other group.
  \<^item> Z opens 08:00, closes 20:00, zero hours.
  \<^item> A2 is a second location at the point of A.
\<close>

definition stand_in_km :: "real \<times> real \<Rightarrow> real \<times> real \<Rightarrow> real" where
  "stand_in_km a b = \<bar>fst a - fst b\<bar> + \<bar>snd a - snd b\<bar>"

definition stand_in_text :: "real \<times> real \<Rightarrow> real \<times> real \<Rightarrow> string" where
  "stand_in_text a b = ''?''"

definition loc_A :: "(real \<times> real) Location" where
  "loc_A = \<lparr> name = ''A'', coordinates = (0, 0), opening_hours = 540, closing_hours = 1080, duration = 1 \<rparr>"

definition loc_B :: "(real \<times> real) Location" where
  "loc_B = \<lparr> name = ''B'', coordinates = (1, 0), opening_hours = 480, closing_hours = 720, duration = 1 \<rparr>"

definition loc_C :: "(real \<times> real) Location" where
  "loc_C = \<lparr> name = ''C'', coordinates = (0, 1), opening_hours = 1080, closing_hours = 1140, duration = 2 \<rparr>"

definition loc_D :: "(real \<times> real) Location" where
  "loc_D = \<lparr> name = ''D'', coordinates = (1, 1), opening_hours = 480, closing_hours = 1200, duration = 2 \<rparr>"

definition loc_E :: "(real \<times> real) Location" where
  "loc_E = \<lparr> name = ''E'', coordinates = (2, 0), opening_hours = 600, closing_hours = 1200, duration = 1 \<rparr>"

definition loc_F :: "(real \<times> real) Location" where
  "loc_F = \<lparr> name = ''F'', coordinates = (1, 1), opening_hours = 480, closing_hours = 540, duration = 1 \<rparr>"

definition loc_Z :: "(real \<times> real) Location" where
  "loc_Z = \<lparr> name = ''Z'', coordinates = (1, 1), opening_hours = 480, closing_hours = 1200, duration = 0 \<rparr>"

definition loc_A_twin :: "(real \<times> real) Location" where
  "loc_A_twin = \<lparr> name = ''A2'', coordinates = (0, 0), opening_hours = 540, closing_hours = 1080, duration = 1 \<rparr>"


text \<open>Two scheduled groups for the rescue pass, and two groups of locations.\<close>

definition example_groups :: "(nat \<times> (real \<times> real) group_result) list" where
  "example_groups =
     [(0, schedule_cluster_with_priorities (calculate_score stand_in_km) stand_in_text
            [loc_A, loc_B] 480 1200),
      (1, \<lparr> schedule = [], unvisitable = [] \<rparr>)]"

definition example_clusters :: "(nat \<times> (real \<times> real) Location list) list" where
  "example_clusters = [(0, [loc_A, loc_B, loc_F]), (1, [loc_E])]"

text \<open>
  A request for two groups over two locations at the same point. The stand-ins for the
  numeric libraries leave the coordinates as they are and let the clustering runs raise
  (for two equal points k-means puts both into one group, and the silhouette score of a
  single group raises).
\<close>

definition twin_request :: "(real \<times> real) ClusteringInput" where
  "twin_request = \<lparr> points = [loc_A, loc_A_twin], num_clusters = 2,
                     daily_start_time = 480, daily_end_time = 1200 \<rparr>"

definition identity_scale :: "(real \<times> real) list \<Rightarrow> (real \<times> real) list option" where
  "identity_scale coords = Some coords"

definition failing_runs ::
  "(real \<times> real) list \<Rightarrow> nat \<Rightarrow> nat \<Rightarrow> (nat list \<times> real \<times> real) list option" where
  "failing_runs data k n = None"

text \<open>
  Two clustering runs over A, B and C with two groups; the second run has the higher
  composite score (0.69 against 0.65) and is the one accepted.
\<close>

definition example_runs :: "(nat list \<times> real \<times> real) list" where
  "example_runs = [([0, 1, 0], 1 / 2, 0), ([1, 1, 0], 3 / 5, 1 / 10)]"

text \<open>
  Points for the centroid update: two points of group 0 at distance 0 and 1 from its
  centroid, one point of group 1 on its centroid, and no point in group 2.
\<close>

definition example_points :: "point list" where
  "example_points = [[0, 0], [1, 0], [5, 5]]"

definition example_centroids :: "point list" where
  "example_centroids = [[0, 0], [5, 5], [9, 9]]"

section \<open>Selection of the next location\<close>

lemma min_from_in: "min_from key b xs \<in> set (b # xs)"
  by (induction xs arbitrary: b) auto

lemma length_remove1_less: "x \<in> set xs \<Longrightarrow> length (remove1 x xs) < length xs"
  by (induction xs) auto

section \<open>The placement procedure is the specified first-fit policy\<close>

lemma scan_events_gaps:
  "0 < i \<Longrightarrow>
   scan_events location xs s e i =
     map_option (\<lambda>g. create_schedule_entry location (end_time (fst g))
                      (end_time (fst g) + timedelta_hours (duration location)))
       (find (gap_fits location) (drop (i - 1) (zip xs (tl xs))))"
proof (induction location xs s e i rule: scan_events.induct)
  case (1 location xs s e i)
  show ?case
  proof (cases "i < length xs")
    case False
    then have "drop (i - 1) (zip xs (tl xs)) = []" by simp
    with False show ?thesis
      by (subst scan_events.simps) simp
  next
    case True
    with \<open>0 < i\<close> have len: "i - 1 < length (zip xs (tl xs))" by simp
    have nth: "zip xs (tl xs) ! (i - 1) = (xs ! (i - 1), xs ! i)"
      using True \<open>0 < i\<close> by (simp add: nth_tl)
    have step: "drop (i - 1) (zip xs (tl xs)) = (xs ! (i - 1), xs ! i) # drop i (zip xs (tl xs))"
      using Cons_nth_drop_Suc [OF len] nth \<open>0 < i\<close> by simp
    show ?thesis
    proof (cases "gap_fits location (xs ! (i - 1), xs ! i)")
      case fits: True
      then show ?thesis
        using True \<open>0 < i\<close> step
        by (subst scan_events.simps) (simp add: gap_fits_def)
    next
      case nofit: False
      have "scan_events location xs s e i = scan_events location xs s e (Suc i)"
        using True \<open>0 < i\<close> nofit
        by (subst scan_events.simps) (simp add: gap_fits_def)
      also have "\<dots> = map_option (\<lambda>g. create_schedule_entry location (end_time (fst g))
                      (end_time (fst g) + timedelta_hours (duration location)))
           (find (gap_fits location) (drop (Suc i - 1) (zip xs (tl xs))))"
      proof -
        have nf: "\<not> end_time (xs ! (i - 1)) + timedelta_hours (duration location)
                    \<le> start_time (xs ! i)"
          using nofit by (simp add: gap_fits_def)
        show ?thesis
          using "1.IH" [OF True refl] \<open>0 < i\<close> nf by simp
      qed
      finally show ?thesis using step nofit by simp
    qed
  qed
qed

lemma scan_events_first:
  "scan_events location (x # xs) s e 0 =
     (if e \<le> start_time x then Some (create_schedule_entry location s e)
      else scan_events location (x # xs) s e (Suc 0))"
  by (subst scan_events.simps) simp

lemma scan_events_Nil: "scan_events location [] s e i = None"
  by (subst scan_events.simps) simp

lemma schedule_single_location_eq:
  "schedule_single_location location entries daily_start daily_end =
   placement_spec location entries daily_start daily_end"
proof (cases entries)
  case Nil
  then show ?thesis
    by (auto simp: schedule_single_location_def placement_spec_def scan_events_Nil Let_def)
next
  case (Cons x xs)
  then show ?thesis
    by (auto simp: schedule_single_location_def placement_spec_def scan_events_first
        scan_events_gaps Let_def split: option.splits)
qed


section \<open>The group scheduler partitions its input\<close>

lemma create_schedule_entry_key [simp]:
  "entry_key (create_schedule_entry location s e) = location_key location"
  by (simp add: entry_key_def location_key_def create_schedule_entry_def)

lemma schedule_single_location_key:
  "schedule_single_location location xs ds de = Some r \<Longrightarrow> entry_key r = location_key location"
  unfolding schedule_single_location_eq placement_spec_def Let_def
  by (auto split: if_splits list.splits option.splits)

lemma entry_key_reason [simp]: "entry_key (r\<lparr>reason := w\<rparr>) = entry_key r"
  by (simp add: entry_key_def)

lemma add_proximity_key [simp]: "map entry_key (add_proximity km xs) = map entry_key xs"
  by (induction km xs rule: add_proximity.induct) (simp_all add: entry_key_def)

lemma length_add_proximity [simp]: "length (add_proximity km xs) = length xs"
  by (induction km xs rule: add_proximity.induct) simp_all

lemma next_location_in: "next_location score c cs sched t \<in> set (c # cs)"
  unfolding next_location_def
  by (simp only: min_from_in if_split [where P = "\<lambda>y. y \<in> set (c # cs)"] simp_thms)

lemma schedule_loop_Cons:
  "schedule_loop score km ds de (c # cs) sched unvis t =
     (let x = next_location score c cs sched t
      in case schedule_single_location x sched ds de of
           Some result \<Rightarrow>
             schedule_loop score km ds de (remove1 x (c # cs))
               (sched @ [result\<lparr>reason := Some
                 (if sched = [] then ''Chosen as the first location based on earliest opening hours''
                  else ''Chosen based on proximity (''
                    @ km (e_coordinates (last sched)) (coordinates x)
                    @ '' km) and business hours compatibility'')\<rparr>]) unvis (end_time result)
         | None \<Rightarrow>
             schedule_loop score km ds de (remove1 x (c # cs)) sched (unvis @ [x]) t)"
  by (simp add: next_location_def Let_def del: remove1.simps)

lemma schedule_loop_None:
  assumes "schedule_single_location (next_location score c cs sched t) sched ds de = None"
  shows "schedule_loop score km ds de (c # cs) sched unvis t =
         schedule_loop score km ds de (remove1 (next_location score c cs sched t) (c # cs))
           sched (unvis @ [next_location score c cs sched t]) t"
  by (subst schedule_loop_Cons) (simp only: Let_def assms option.case)

lemma schedule_loop_Some:
  assumes "schedule_single_location (next_location score c cs sched t) sched ds de = Some r"
  shows "schedule_loop score km ds de (c # cs) sched unvis t =
         schedule_loop score km ds de (remove1 (next_location score c cs sched t) (c # cs))
           (sched @ [r\<lparr>reason := Some (reason_text km sched (next_location score c cs sched t))\<rparr>])
           unvis (end_time r)"
  by (subst schedule_loop_Cons) (simp only: Let_def assms option.case reason_text_def)

lemma schedule_loop_partition:
  "schedule_loop score km ds de cluster sched unvis t = (sched', unvis') \<Longrightarrow>
   \<exists>placed rejected.
      mset placed + mset rejected = mset cluster \<and>
      map entry_key sched' = map entry_key sched @ map location_key placed \<and>
      unvis' = unvis @ rejected"
proof (induction "length cluster" arbitrary: cluster sched unvis t)
  case 0
  then show ?case by simp
next
  case (Suc n)
  then obtain c cs where cl: "cluster = c # cs" by (cases cluster) auto
  define x where "x = next_location score c cs sched t"
  have xin: "x \<in> set cluster" unfolding x_def cl by (rule next_location_in)
  then have len: "n = length (remove1 x cluster)"
    using Suc.hyps(2) by (simp add: length_remove1)
  have ms: "add_mset x (mset (remove1 x cluster)) = mset cluster"
    using xin by simp
  show ?case
  proof (cases "schedule_single_location x sched ds de")
    case None
    have "schedule_loop score km ds de (remove1 x cluster) sched (unvis @ [x]) t = (sched', unvis')"
      using Suc.prems schedule_loop_None [of score c cs sched t ds de km unvis] None
      unfolding cl x_def by (simp only:)
    from Suc.hyps(1) [OF len this] obtain placed rejected where
      "mset placed + mset rejected = mset (remove1 x cluster)"
      "map entry_key sched' = map entry_key sched @ map location_key placed"
      "unvis' = (unvis @ [x]) @ rejected" by blast
    then show ?thesis
      using ms by (intro exI [of _ placed] exI [of _ "x # rejected"]) simp
  next
    case (Some r)
    have
      "schedule_loop score km ds de (remove1 x cluster)
         (sched @ [r\<lparr>reason := Some (reason_text km sched x)\<rparr>]) unvis
         (end_time r) = (sched', unvis')"
      using Suc.prems schedule_loop_Some [of score c cs sched t ds de r km unvis] Some
      unfolding cl x_def by (simp only:)
    from Suc.hyps(1) [OF len this] obtain placed rejected where
      "mset placed + mset rejected = mset (remove1 x cluster)"
      "map entry_key sched' = map entry_key (sched @ [r\<lparr>reason := Some (reason_text km sched x)\<rparr>]) @ map location_key placed"
      "unvis' = unvis @ rejected" by blast
    then show ?thesis
      using ms schedule_single_location_key [OF Some]
      by (intro exI [of _ "x # placed"] exI [of _ rejected]) simp
  qed
qed

lemma partition_names:
  assumes "mset placed + mset rejected = mset cluster" "distinct (map name cluster)"
  shows "set (map name placed) \<inter> set (map name rejected) = {}"
proof -
  have "mset (map name placed @ map name rejected) = mset (map name cluster)"
    using assms(1) by (metis image_mset_union mset_append mset_map)
  then have "distinct (map name placed @ map name rejected)"
    using assms(2) by (metis mset_eq_imp_distinct_iff)
  then show ?thesis by simp
qed

lemma keys_names:
  "map entry_key xs = map location_key ys \<Longrightarrow> map e_name xs = map name ys"
  by (induction xs arbitrary: ys) (auto simp: entry_key_def location_key_def)

text \<open>
  Claim C10. The group scheduler is total (its loop is defined with a termination proof:
  every iteration removes one location from the cluster list), and it partitions its
  input: the unvisitable list and the list of the locations behind the schedule entries,
  in schedule order, are together a permutation of the input list, so the two lengths
  add up to the length of the input; with unique names no name is on both sides.
\<close>

theorem group_scheduler_partitions:
  fixes cluster :: "'c Location list" and score km daily_start daily_end
  defines "r \<equiv> schedule_cluster_with_priorities score km cluster daily_start daily_end"
  shows "\<exists>placed.
           mset placed + mset (unvisitable r) = mset cluster \<and>
           map entry_key (schedule r) = map location_key placed \<and>
           length (schedule r) + length (unvisitable r) = length cluster \<and>
           (distinct (map name cluster) \<longrightarrow>
              set (map e_name (schedule r)) \<inter> set (map name (unvisitable r)) = {})"
proof -
  obtain sched unvis where
    loop: "schedule_loop score km daily_start daily_end cluster [] [] daily_start = (sched, unvis)"
    by (cases "schedule_loop score km daily_start daily_end cluster [] [] daily_start")
  then have r: "schedule r = add_proximity km sched" "unvisitable r = unvis"
    by (simp_all add: r_def schedule_cluster_with_priorities_def)
  from schedule_loop_partition [OF loop] obtain placed where
    p: "mset placed + mset unvis = mset cluster" "map entry_key sched = map location_key placed"
    by auto
  have len: "length sched + length unvis = length cluster"
  proof -
    have "length sched = length placed"
      using p(2) by (metis length_map)
    moreover have "length placed + length unvis = length cluster"
      using p(1) by (metis size_mset size_union)
    ultimately show ?thesis by simp
  qed
  have names: "map e_name (add_proximity km sched) = map name placed"
    using p(2) by (intro keys_names) simp
  show ?thesis
    using p len names partition_names [OF p(1)]
    by (intro exI [of _ placed]) (simp add: r)
qed

theorem group_scheduler_partitions_witness:
  "distinct (map name [loc_A, loc_B, loc_C]) \<and>
   map e_name (schedule (schedule_cluster_with_priorities (calculate_score stand_in_km)
      stand_in_text [loc_A, loc_B, loc_C] 480 1200)) = [''B'', ''A''] \<and>
   map name (unvisitable (schedule_cluster_with_priorities (calculate_score stand_in_km)
      stand_in_text [loc_A, loc_B, loc_C] 480 1200)) = [''C'']"
  using group_scheduler_partitions [of "calculate_score stand_in_km" stand_in_text
      "[loc_A, loc_B, loc_C]" 480 1200]
  by (simp add: loc_A_def loc_B_def loc_C_def schedule_cluster_with_priorities_def
      schedule_single_location_eq placement_spec_def calculate_score_def stand_in_km_def
      timedelta_hours_def create_schedule_entry_def strftime_HM_def gap_fits_def Let_def)

section \<open>The multi-start search\<close>

lemma multi_start_constant:
  "multi_start (\<lambda>_. r) i n (Some (attempt_score r, r)) = Some (attempt_score r, r)"
  by (induction n arbitrary: i) (simp_all add: Let_def)

lemma multi_start_constant_None:
  "multi_start (\<lambda>_. r) i (Suc n) None = Some (attempt_score r, r)"
  by (simp add: Let_def multi_start_constant)







lemmas example_defs =
  loc_A_def loc_B_def loc_C_def schedule_cluster_with_priorities_def
  schedule_single_location_eq placement_spec_def calculate_score_def stand_in_km_def
  timedelta_hours_def create_schedule_entry_def strftime_HM_def gap_fits_def Let_def



section \<open>The rescue pass only adds entries\<close>

lemma keeps_entries_refl: "keeps_entries c c"
  by (simp add: keeps_entries_def)

lemma keeps_entries_trans:
  "keeps_entries a b \<Longrightarrow> keeps_entries b c \<Longrightarrow> keeps_entries a c"
  by (auto simp: keeps_entries_def intro: subset_mset.order_trans)

lemma keeps_all_refl: "list_all2 keeps_entries cs cs"
  by (simp add: list_all2_refl keeps_entries_refl)

lemma keeps_all_trans:
  "list_all2 keeps_entries as bs \<Longrightarrow> list_all2 keeps_entries bs cs \<Longrightarrow>
   list_all2 keeps_entries as cs"
  using keeps_entries_trans by (rule list_all2_trans)

lemma try_clusters_Some:
  "try_clusters location clusters ds de = Some clusters' \<Longrightarrow>
   list_all2 keeps_entries clusters clusters' \<and>
   total_scheduled clusters' = Suc (total_scheduled clusters)"
proof (induction clusters arbitrary: clusters')
  case Nil
  then show ?case by simp
next
  case (Cons c cs)
  obtain cid g where c: "c = (cid, g)" by (cases c)
  show ?case
  proof (cases "schedule_single_location location (schedule g) ds de")
    case (Some r)
    with Cons.prems have
      "clusters' = (cid, g\<lparr>schedule := sort_key start_time (schedule g @ [r])\<rparr>) # cs"
      by (simp add: c)
    then show ?thesis
      by (simp add: c total_scheduled_def keeps_all_refl) (simp add: keeps_entries_def)
  next
    case None
    with Cons.prems obtain rest where
      rest: "try_clusters location cs ds de = Some rest" "clusters' = (cid, g) # rest"
      by (auto simp: c)
    from Cons.IH [OF rest(1)] show ?thesis
      by (simp add: rest(2) c keeps_entries_refl total_scheduled_def)
  qed
qed

lemma rescue_loop_monotone:
  "rescue_loop locations clusters new_unvisitable ds de = (clusters', unvis') \<Longrightarrow>
   \<exists>rejected. unvis' = new_unvisitable @ rejected \<and> subseq rejected locations \<and>
      list_all2 keeps_entries clusters clusters' \<and>
      total_scheduled clusters' + length rejected = total_scheduled clusters + length locations"
proof (induction locations arbitrary: clusters new_unvisitable)
  case Nil
  then show ?case by (simp add: keeps_all_refl)
next
  case (Cons l ls)
  show ?case
  proof (cases "try_clusters l clusters ds de")
    case None
    with Cons.prems have
      "rescue_loop ls clusters (new_unvisitable @ [l]) ds de = (clusters', unvis')"
      by simp
    from Cons.IH [OF this] obtain rejected where
      "unvis' = (new_unvisitable @ [l]) @ rejected" "subseq rejected ls"
      "list_all2 keeps_entries clusters clusters'"
      "total_scheduled clusters' + length rejected = total_scheduled clusters + length ls"
      by blast
    then show ?thesis
      by (intro exI [of _ "l # rejected"]) simp
  next
    case (Some mid)
    with Cons.prems have "rescue_loop ls mid new_unvisitable ds de = (clusters', unvis')"
      by simp
    from Cons.IH [OF this] obtain rejected where
      "unvis' = new_unvisitable @ rejected" "subseq rejected ls"
      "list_all2 keeps_entries mid clusters'"
      "total_scheduled clusters' + length rejected = total_scheduled mid + length ls"
      by blast
    then show ?thesis
      using try_clusters_Some [OF Some]
      by (intro exI [of _ rejected]) (auto intro: keeps_all_trans)
  qed
qed

text \<open>
  Claim C5. The rescue pass is monotone, for every input: the total number of entries over
  all groups does not go down (it grows by exactly the number of leftover locations that
  are placed); group by group, in the same order and under the same ids, every entry of
  the schedule before the pass is in the schedule after it; and the returned unvisitable
  list is a subsequence of the leftover list, in the original order.
\<close>

theorem rescue_pass_monotone:
  assumes "handle_unvisitable locations clusters daily_start daily_end = (clusters', unvis')"
  shows "total_scheduled clusters \<le> total_scheduled clusters' \<and>
         total_scheduled clusters' + length unvis' = total_scheduled clusters + length locations \<and>
         list_all2 keeps_entries clusters clusters' \<and>
         subseq unvis' locations"
proof -
  from rescue_loop_monotone [OF assms [unfolded handle_unvisitable_def]] obtain rejected where
    r: "unvis' = [] @ rejected" "subseq rejected locations"
      "list_all2 keeps_entries clusters clusters'"
      "total_scheduled clusters' + length rejected = total_scheduled clusters + length locations"
    by blast
  have "length rejected \<le> length locations"
    using r(2) by (rule list_emb_length)
  then show ?thesis using r by simp
qed

theorem rescue_pass_monotone_witness:
  "snd (handle_unvisitable [loc_C, loc_D] example_groups 480 1200) = [loc_C] \<and>
   total_scheduled example_groups = 2 \<and>
   total_scheduled (fst (handle_unvisitable [loc_C, loc_D] example_groups 480 1200)) = 3 \<and>
   map (\<lambda>c. map e_name (schedule (snd c)))
     (fst (handle_unvisitable [loc_C, loc_D] example_groups 480 1200)) = [[''B'', ''A'', ''D''], []]"
  using rescue_pass_monotone [of "[loc_C, loc_D]" example_groups 480 1200
      "fst (handle_unvisitable [loc_C, loc_D] example_groups 480 1200)"
      "snd (handle_unvisitable [loc_C, loc_D] example_groups 480 1200)"]
  by (simp add: handle_unvisitable_def example_groups_def total_scheduled_def loc_D_def
      example_defs)

text \<open>
  Claim C2 (window containment: every placed entry starts at or after the opening time of
  its location and ends at or before its closing time, inside the daily window). The group
  scheduler, run on B and E from 08:00 to 20:00, places E from 09:00 to 10:00, although E
  opens at 10:00: a slot after the last entry, or in a gap, starts at the end of the
  previous entry and is never compared with the opening time.
\<close>

theorem placement_before_opening:
  "map (\<lambda>e. (e_name e, start_time e, end_time e))
     (schedule (schedule_cluster_with_priorities (calculate_score stand_in_km) stand_in_text
        [loc_B, loc_E] 480 1200)) = [(''B'', 480, 540), (''E'', 540, 600)] \<and>
   opening_hours loc_E = 600"
  by (simp add: loc_E_def example_defs)

section \<open>Order and non-overlap of the schedules\<close>

lemma tidy_Nil [simp]: "tidy []"
  by (simp add: tidy_def)

lemma tidy_before:
  "tidy xs \<Longrightarrow> i < j \<Longrightarrow> j < length xs \<Longrightarrow> end_time (xs ! i) \<le> start_time (xs ! j)"
  unfolding tidy_def by (blast dest: sorted_wrt_nth_less)

lemma tidy_proper: "tidy xs \<Longrightarrow> i < length xs \<Longrightarrow> proper_entry (xs ! i)"
  unfolding tidy_def by simp

lemma tidy_mono:
  assumes "tidy xs" "i \<le> j" "j < length xs"
  shows "start_time (xs ! i) \<le> start_time (xs ! j)" "end_time (xs ! i) \<le> end_time (xs ! j)"
proof -
  have "start_time (xs ! i) \<le> start_time (xs ! j) \<and> end_time (xs ! i) \<le> end_time (xs ! j)"
  proof (cases "i = j")
    case True
    then show ?thesis by simp
  next
    case False
    with assms(2) have "i < j" by simp
    from tidy_before [OF assms(1) this assms(3)]
      tidy_proper [OF assms(1), of i] tidy_proper [OF assms(1) assms(3)] assms(2,3)
    show ?thesis by (simp add: proper_entry_def)
  qed
  then show "start_time (xs ! i) \<le> start_time (xs ! j)" "end_time (xs ! i) \<le> end_time (xs ! j)"
    by simp_all
qed

lemma tidy_ordered:
  assumes "tidy xs"
  shows "ordered_schedule xs"
proof -
  have "sorted_wrt (\<lambda>a b. start_time a \<le> start_time b) xs"
    using assms unfolding tidy_def
    by (auto simp: proper_entry_def elim!: sorted_wrt_mono_rel [rotated])
  then have "sorted (map start_time xs)"
    by (simp add: sorted_wrt_map)
  moreover have "end_time (xs ! i) \<le> start_time (xs ! Suc i)" if "Suc i < length xs" for i
    using tidy_before [OF assms _ that, of i] by simp
  ultimately show ?thesis
    by (simp add: ordered_schedule_def)
qed

lemma tidy_times_cong:
  assumes "map start_time ys = map start_time xs" "map end_time ys = map end_time xs"
  shows "tidy ys = tidy xs"
proof -
  have len: "length ys = length xs"
    using assms(1) by (metis length_map)
  have s: "start_time (ys ! i) = start_time (xs ! i)" if "i < length xs" for i
    using assms(1) that len by (metis nth_map)
  have e: "end_time (ys ! i) = end_time (xs ! i)" if "i < length xs" for i
    using assms(2) that len by (metis nth_map)
  show ?thesis
    unfolding tidy_def sorted_wrt_iff_nth_less all_set_conv_all_nth proper_entry_def
    using len s e by auto
qed

lemma strftime_HM_id: "0 \<le> t \<Longrightarrow> t < 1440 \<Longrightarrow> strftime_HM t = t"
  by (simp add: strftime_HM_def)

lemma placement_cases:
  assumes "schedule_single_location loc xs ds de = Some r"
  shows "max ds (opening_hours loc) + timedelta_hours (duration loc)
           \<le> min de (closing_hours loc) \<and>
         ((xs = [] \<or> max ds (opening_hours loc) + timedelta_hours (duration loc)
                       \<le> start_time (hd xs)) \<and>
          r = create_schedule_entry loc (max ds (opening_hours loc))
                (max ds (opening_hours loc) + timedelta_hours (duration loc))
          \<or> (\<exists>i. Suc i < length xs \<and>
                  end_time (xs ! i) + timedelta_hours (duration loc) \<le> start_time (xs ! Suc i) \<and>
                  r = create_schedule_entry loc (end_time (xs ! i))
                        (end_time (xs ! i) + timedelta_hours (duration loc)))
          \<or> (xs \<noteq> [] \<and>
              end_time (last xs) + timedelta_hours (duration loc) \<le> min de (closing_hours loc) \<and>
              r = create_schedule_entry loc (end_time (last xs))
                    (end_time (last xs) + timedelta_hours (duration loc))))"
proof (cases xs)
  case Nil
  with assms show ?thesis
    unfolding schedule_single_location_eq placement_spec_def Let_def
    by (auto split: if_splits)
next
  case (Cons x rest)
  have gap: "\<exists>i. Suc i < length xs \<and>
                  end_time (xs ! i) + timedelta_hours (duration loc) \<le> start_time (xs ! Suc i) \<and>
                  g = (xs ! i, xs ! Suc i)"
    if "find (gap_fits loc) (zip xs rest) = Some g" for g
  proof -
    from that obtain i where
      i: "i < length (zip xs rest)" "gap_fits loc (zip xs rest ! i)" "g = zip xs rest ! i"
      unfolding find_Some_iff by blast
    then have "Suc i < length xs" "zip xs rest ! i = (xs ! i, xs ! Suc i)"
      using Cons by simp_all
    with i show ?thesis
      by (auto simp: gap_fits_def)
  qed
  from assms show ?thesis
    unfolding schedule_single_location_eq placement_spec_def Let_def Cons [symmetric]
    using Cons gap
    by (auto split: if_splits option.splits simp: Cons) 
qed

lemma tidy_insert_sorted:
  assumes "tidy xs" "proper_entry r"
    and apart: "\<forall>e\<in>set xs. end_time e \<le> start_time r \<or> end_time r \<le> start_time e"
  shows "tidy (sort_key start_time (xs @ [r]))"
proof -
  let ?S = "xs @ [r]" and ?ys = "sort_key start_time (xs @ [r])"
  have proper: "\<forall>e\<in>set ?S. proper_entry e"
    using assms(1,2) by (auto simp: tidy_def)
  have strict: "sorted_wrt (\<lambda>a b. start_time a < start_time b) xs"
    using assms(1) unfolding tidy_def
    by (auto simp: proper_entry_def elim!: sorted_wrt_mono_rel [rotated])
  have pair_xs: "end_time a \<le> start_time b \<or> end_time b \<le> start_time a"
    if "a \<in> set xs" "b \<in> set xs" "a \<noteq> b" for a b
  proof -
    from that obtain i j where ij: "i < length xs" "j < length xs" "xs ! i = a" "xs ! j = b"
      by (metis in_set_conv_nth)
    with that(3) have "i < j \<or> j < i" by (metis nat_neq_iff)
    then show ?thesis
      using tidy_before [OF assms(1), of i j] tidy_before [OF assms(1), of j i] ij by auto
  qed
  have pair: "end_time a \<le> start_time b \<or> end_time b \<le> start_time a"
    if "a \<in> set ?S" "b \<in> set ?S" "a \<noteq> b" for a b
    using that pair_xs apart by auto
  have "distinct (map start_time xs)"
    using strict by (simp add: sorted_wrt_map [symmetric] strict_sorted_iff)
  moreover have "start_time r \<notin> start_time ` set xs"
    using apart proper by (fastforce simp: proper_entry_def)
  ultimately have dist: "distinct (map start_time ?S)"
    by simp
  have "mset (map start_time ?ys) = mset (map start_time ?S)"
    by (simp only: mset_map mset_sort)
  with dist have "distinct (map start_time ?ys)"
    by (metis mset_eq_imp_distinct_iff)
  moreover have "sorted (map start_time ?ys)"
    by (rule sorted_sort_key)
  ultimately have "sorted_wrt (<) (map start_time ?ys)"
    by (simp add: strict_sorted_iff)
  then have strict_ys: "sorted_wrt (\<lambda>a b. start_time a < start_time b) ?ys"
    by (simp add: sorted_wrt_map)
  have "sorted_wrt (\<lambda>a b. end_time a \<le> start_time b) ?ys"
  proof (rule sorted_wrt_mono_rel [OF _ strict_ys])
    fix a b
    assume ab: "a \<in> set ?ys" "b \<in> set ?ys" "start_time a < start_time b"
    then have "a \<in> set ?S" "b \<in> set ?S" "a \<noteq> b" by auto
    from pair [OF this] proper \<open>b \<in> set ?S\<close> ab(3)
    show "end_time a \<le> start_time b"
      by (fastforce simp: proper_entry_def)
  qed
  then show ?thesis
    using proper by (simp add: tidy_def)
qed

lemma proper_create:
  "0 \<le> s \<Longrightarrow> s < e \<Longrightarrow> e < 1440 \<Longrightarrow>
   start_time (create_schedule_entry loc s e) = s \<and>
   end_time (create_schedule_entry loc s e) = e \<and>
   proper_entry (create_schedule_entry loc s e)"
  by (simp add: create_schedule_entry_def strftime_HM_id proper_entry_def)

lemma tidy_hd_least:
  assumes "tidy xs" "e \<in> set xs"
  shows "start_time (hd xs) \<le> start_time e"
proof -
  from assms(2) obtain j where j: "j < length xs" "xs ! j = e"
    by (metis in_set_conv_nth)
  then have "xs \<noteq> []" by auto
  then have "hd xs = xs ! 0" by (simp add: hd_conv_nth)
  with tidy_mono(1) [OF assms(1), of 0 j] j show ?thesis by simp
qed

lemma tidy_last_greatest:
  assumes "tidy xs" "e \<in> set xs"
  shows "end_time e \<le> end_time (last xs)"
proof -
  from assms(2) obtain j where j: "j < length xs" "xs ! j = e"
    by (metis in_set_conv_nth)
  then have ne: "xs \<noteq> []" by auto
  then have "last xs = xs ! (length xs - 1)" by (simp add: last_conv_nth)
  with tidy_mono(2) [OF assms(1), of j "length xs - 1"] j ne show ?thesis by simp
qed

lemma placement_tidy:
  assumes t: "tidy xs" and ds: "valid_time ds" and de: "valid_time de"
    and wf: "well_formed loc"
    and placed: "schedule_single_location loc xs ds de = Some r"
  shows "proper_entry r \<and>
         (\<forall>e\<in>set xs. end_time e \<le> start_time r \<or> end_time r \<le> start_time e)"
proof -
  define d where "d = timedelta_hours (duration loc)"
  define s0 where "s0 = max ds (opening_hours loc)"
  have d: "0 < d" using wf by (simp add: d_def well_formed_def timedelta_hours_def)
  have s0: "0 \<le> s0" using ds by (simp add: s0_def valid_time_def max_def)
  have bound: "min de (closing_hours loc) < 1440" using de by (simp add: valid_time_def min_def)
  from placement_cases [OF placed] have
    fits: "s0 + d \<le> min de (closing_hours loc)" and
    cases: "(xs = [] \<or> s0 + d \<le> start_time (hd xs)) \<and> r = create_schedule_entry loc s0 (s0 + d)
      \<or> (\<exists>i. Suc i < length xs \<and> end_time (xs ! i) + d \<le> start_time (xs ! Suc i) \<and>
              r = create_schedule_entry loc (end_time (xs ! i)) (end_time (xs ! i) + d))
      \<or> (xs \<noteq> [] \<and> end_time (last xs) + d \<le> min de (closing_hours loc) \<and>
          r = create_schedule_entry loc (end_time (last xs)) (end_time (last xs) + d))"
    unfolding d_def s0_def by blast+
  from cases consider
    (first) "xs = [] \<or> s0 + d \<le> start_time (hd xs)" "r = create_schedule_entry loc s0 (s0 + d)"
  | (gap) i where "Suc i < length xs" "end_time (xs ! i) + d \<le> start_time (xs ! Suc i)"
        "r = create_schedule_entry loc (end_time (xs ! i)) (end_time (xs ! i) + d)"
  | (after) "xs \<noteq> []" "end_time (last xs) + d \<le> min de (closing_hours loc)"
        "r = create_schedule_entry loc (end_time (last xs)) (end_time (last xs) + d)"
    by blast
  then show ?thesis
  proof cases
    case first
    have r: "start_time r = s0" "end_time r = s0 + d" "proper_entry r"
      using proper_create [of s0 "s0 + d" loc] s0 d fits bound first(2) by simp_all
    have "end_time r \<le> start_time e" if "e \<in> set xs" for e
      using first(1) that tidy_hd_least [OF t that] r by auto
    with r show ?thesis by blast
  next
    case (gap i)
    have pi: "proper_entry (xs ! i)" "proper_entry (xs ! Suc i)"
      using tidy_proper [OF t] gap(1) by simp_all
    then have r: "start_time r = end_time (xs ! i)" "end_time r = end_time (xs ! i) + d"
        "proper_entry r"
      using proper_create [of "end_time (xs ! i)" "end_time (xs ! i) + d" loc] d gap(2,3)
      by (simp_all add: proper_entry_def)
    have "end_time e \<le> start_time r \<or> end_time r \<le> start_time e" if "e \<in> set xs" for e
    proof -
      from that obtain j where j: "j < length xs" "xs ! j = e"
        by (metis in_set_conv_nth)
      show ?thesis
      proof (cases "j \<le> i")
        case True
        with tidy_mono(2) [OF t True] gap(1) j r show ?thesis by simp
      next
        case False
        then have "Suc i \<le> j" by simp
        with tidy_mono(1) [OF t this j(1)] gap(2) j r show ?thesis by simp
      qed
    qed
    with r show ?thesis by blast
  next
    case after
    have "last xs \<in> set xs" using after(1) by simp
    then have "proper_entry (last xs)" using t by (simp add: tidy_def)
    then have r: "start_time r = end_time (last xs)" "end_time r = end_time (last xs) + d"
        "proper_entry r"
      using proper_create [of "end_time (last xs)" "end_time (last xs) + d" loc] d after(2,3) bound
      by (simp_all add: proper_entry_def)
    have "end_time e \<le> start_time r" if "e \<in> set xs" for e
      using tidy_last_greatest [OF t that] r by simp
    with r show ?thesis by blast
  qed
qed

lemma min_from_least:
  "key (min_from key b xs) \<le> key b \<and> (\<forall>y\<in>set xs. key (min_from key b xs) \<le> key y)"
proof (induction xs arbitrary: b)
  case Nil
  then show ?case by simp
next
  case (Cons x xs)
  show ?case
  proof (cases "key x < key b")
    case True
    with Cons.IH [of x] show ?thesis by auto
  next
    case False
    with Cons.IH [of b] show ?thesis by auto
  qed
qed

lemma entry_times_reason [simp]:
  "start_time (r\<lparr>reason := w\<rparr>) = start_time r" "end_time (r\<lparr>reason := w\<rparr>) = end_time r"
  "proper_entry (r\<lparr>reason := w\<rparr>) = proper_entry r"
  by (simp_all add: proper_entry_def)

lemma add_proximity_times:
  "map start_time (add_proximity km xs) = map start_time xs"
  "map end_time (add_proximity km xs) = map end_time xs"
  by (induction km xs rule: add_proximity.induct) simp_all

lemma group_step:
  assumes t: "tidy sched"
    and ch: "successively (\<lambda>a b. end_time a = start_time b) sched"
    and first: "sched \<noteq> [] \<longrightarrow> start_time (hd sched) \<le> max ds (opening_hours x)"
    and ds: "valid_time ds" and de: "valid_time de" and wf: "well_formed x"
    and placed: "schedule_single_location x sched ds de = Some r"
  shows "tidy (sched @ [r\<lparr>reason := w\<rparr>]) \<and>
         successively (\<lambda>a b. end_time a = start_time b) (sched @ [r\<lparr>reason := w\<rparr>]) \<and>
         (sched = [] \<longrightarrow> start_time r = max ds (opening_hours x))"
proof -
  define d where "d = timedelta_hours (duration x)"
  define s0 where "s0 = max ds (opening_hours x)"
  have d: "0 < d" using wf by (simp add: d_def well_formed_def timedelta_hours_def)
  have s0: "0 \<le> s0" using ds by (simp add: s0_def valid_time_def max_def)
  have bound: "min de (closing_hours x) < 1440" using de by (simp add: valid_time_def min_def)
  have pr: "proper_entry r"
    using placement_tidy [OF t ds de wf placed] by simp
  from placement_cases [OF placed] have
    fits: "s0 + d \<le> min de (closing_hours x)" and
    cases: "(sched = [] \<or> s0 + d \<le> start_time (hd sched)) \<and>
            r = create_schedule_entry x s0 (s0 + d)
      \<or> (\<exists>i. Suc i < length sched \<and> end_time (sched ! i) + d \<le> start_time (sched ! Suc i) \<and>
              r = create_schedule_entry x (end_time (sched ! i)) (end_time (sched ! i) + d))
      \<or> (sched \<noteq> [] \<and> end_time (last sched) + d \<le> min de (closing_hours x) \<and>
          r = create_schedule_entry x (end_time (last sched)) (end_time (last sched) + d))"
    unfolding d_def s0_def by blast+
  have no_gap: "\<not> (Suc i < length sched \<and> end_time (sched ! i) + d \<le> start_time (sched ! Suc i))"
    for i
    using successively_nth [OF ch, of i] d by auto
  have no_front: "\<not> (sched \<noteq> [] \<and> s0 + d \<le> start_time (hd sched))"
    using first d by (auto simp: s0_def)
  from cases no_gap no_front consider
    (first) "sched = []" "r = create_schedule_entry x s0 (s0 + d)"
  | (after) "sched \<noteq> []" "end_time (last sched) + d \<le> min de (closing_hours x)"
        "r = create_schedule_entry x (end_time (last sched)) (end_time (last sched) + d)"
    by blast
  then show ?thesis
  proof cases
    case first
    have "start_time r = s0"
      using proper_create [of s0 "s0 + d" x] s0 d fits bound first(2) by simp
    then show ?thesis
      using first(1) pr by (simp add: tidy_def s0_def)
  next
    case after
    have "last sched \<in> set sched" using after(1) by simp
    then have "proper_entry (last sched)" using t by (simp add: tidy_def)
    then have r: "start_time r = end_time (last sched)"
      using proper_create [of "end_time (last sched)" "end_time (last sched) + d" x] d after(2,3) bound
      by (simp add: proper_entry_def)
    have "end_time e \<le> start_time r" if "e \<in> set sched" for e
      using tidy_last_greatest [OF t that] r by simp
    then have "tidy (sched @ [r\<lparr>reason := w\<rparr>])"
      using t pr by (simp add: tidy_def sorted_wrt_append)
    moreover have "successively (\<lambda>a b. end_time a = start_time b) (sched @ [r\<lparr>reason := w\<rparr>])"
      using ch r after(1) by (simp add: successively_append_iff)
    ultimately show ?thesis using after(1) by simp
  qed
qed

lemma schedule_loop_tidy:
  assumes "schedule_loop score km ds de cluster sched unvis t = (sched', unvis')"
    and "tidy sched"
    and "successively (\<lambda>a b. end_time a = start_time b) sched"
    and "sched \<noteq> [] \<longrightarrow> (\<forall>l\<in>set cluster. start_time (hd sched) \<le> max ds (opening_hours l))"
    and "\<forall>l\<in>set cluster. well_formed l"
    and ds: "valid_time ds" and de: "valid_time de"
  shows "tidy sched'"
  using assms(1-5)
proof (induction "length cluster" arbitrary: cluster sched unvis t)
  case 0
  then show ?case by simp
next
  case (Suc n)
  then obtain c cs where cl: "cluster = c # cs" by (cases cluster) auto
  define x where "x = next_location score c cs sched t"
  have xin: "x \<in> set cluster" unfolding x_def cl by (rule next_location_in)
  then have len: "n = length (remove1 x cluster)"
    using Suc.hyps(2) by (simp add: length_remove1)
  have sub: "set (remove1 x cluster) \<subseteq> set cluster"
    by (rule set_remove1_subset)
  have wf_rest: "\<forall>l\<in>set (remove1 x cluster). well_formed l"
    using Suc.prems(5) sub by blast
  have wf_x: "well_formed x" using Suc.prems(5) xin by blast
  show ?case
  proof (cases "schedule_single_location x sched ds de")
    case None
    have loop: "schedule_loop score km ds de (remove1 x cluster) sched (unvis @ [x]) t
                = (sched', unvis')"
      using Suc.prems(1) schedule_loop_None [of score c cs sched t ds de km unvis] None
      unfolding cl x_def by (simp only:)
    have "sched \<noteq> [] \<longrightarrow>
          (\<forall>l\<in>set (remove1 x cluster). start_time (hd sched) \<le> max ds (opening_hours l))"
      using Suc.prems(4) sub by blast
    from Suc.hyps(1) [OF len loop Suc.prems(2,3) this wf_rest] show ?thesis .
  next
    case (Some r)
    define r' where "r' = r\<lparr>reason := Some (reason_text km sched x)\<rparr>"
    have loop: "schedule_loop score km ds de (remove1 x cluster) (sched @ [r']) unvis (end_time r)
                = (sched', unvis')"
      using Suc.prems(1) schedule_loop_Some [of score c cs sched t ds de r km unvis] Some
      unfolding cl x_def r'_def by (simp only:)
    have "sched \<noteq> [] \<longrightarrow> start_time (hd sched) \<le> max ds (opening_hours x)"
      using Suc.prems(4) xin by blast
    from group_step [OF Suc.prems(2,3) this ds de wf_x Some, of "Some (reason_text km sched x)"]
    have step: "tidy (sched @ [r'])"
      "successively (\<lambda>a b. end_time a = start_time b) (sched @ [r'])"
      "sched = [] \<longrightarrow> start_time r = max ds (opening_hours x)"
      unfolding r'_def by simp_all
    have "\<forall>l\<in>set (remove1 x cluster). start_time (hd (sched @ [r'])) \<le> max ds (opening_hours l)"
    proof (cases "sched = []")
      case True
      then have "x = min_from opening_hours c cs"
        by (simp add: x_def next_location_def)
      then have "\<forall>l\<in>set cluster. opening_hours x \<le> opening_hours l"
        using min_from_least [of opening_hours c cs] by (simp add: cl)
      then have "\<forall>l\<in>set cluster. max ds (opening_hours x) \<le> max ds (opening_hours l)"
        by (auto simp: max_def)
      with True step(3) sub show ?thesis
        by (auto simp: r'_def)
    next
      case False
      with Suc.prems(4) sub show ?thesis by auto
    qed
    then have "sched @ [r'] \<noteq> [] \<longrightarrow>
        (\<forall>l\<in>set (remove1 x cluster). start_time (hd (sched @ [r'])) \<le> max ds (opening_hours l))"
      by blast
    from Suc.hyps(1) [OF len loop step(1,2) this wf_rest] show ?thesis .
  qed
qed

lemma scheduler_tidy:
  assumes "valid_time ds" "valid_time de" "\<forall>l\<in>set cluster. well_formed l"
  shows "tidy (schedule (schedule_cluster_with_priorities score km cluster ds de))"
proof -
  obtain sched unvis where
    loop: "schedule_loop score km ds de cluster [] [] ds = (sched, unvis)"
    by (cases "schedule_loop score km ds de cluster [] [] ds")
  have "tidy sched"
    by (rule schedule_loop_tidy [OF loop _ _ _ assms(3,1,2)]) simp_all
  then have "tidy (add_proximity km sched)"
    by (simp add: tidy_times_cong [OF add_proximity_times])
  then show ?thesis
    using loop by (simp add: schedule_cluster_with_priorities_def)
qed

lemma scheduler_unvisitable_subset:
  "set (unvisitable (schedule_cluster_with_priorities score km cluster ds de)) \<subseteq> set cluster"
proof -
  obtain sched unvis where
    loop: "schedule_loop score km ds de cluster [] [] ds = (sched, unvis)"
    by (cases "schedule_loop score km ds de cluster [] [] ds")
  from schedule_loop_partition [OF loop] obtain placed where
    "mset placed + mset unvis = mset cluster" by auto
  then have "set unvis \<subseteq> set cluster"
    by (metis mset_subset_eq_add_right set_mset_mono set_mset_mset)
  then show ?thesis
    using loop by (simp add: schedule_cluster_with_priorities_def)
qed

lemma try_clusters_tidy:
  assumes "try_clusters loc clusters ds de = Some clusters'"
    and "\<forall>c\<in>set clusters. tidy (schedule (snd c))"
    and "valid_time ds" "valid_time de" "well_formed loc"
  shows "\<forall>c\<in>set clusters'. tidy (schedule (snd c))"
  using assms(1,2)
proof (induction clusters arbitrary: clusters')
  case Nil
  then show ?case by simp
next
  case (Cons c cs)
  obtain cid g where c: "c = (cid, g)" by (cases c)
  have tg: "tidy (schedule g)" using Cons.prems(2) by (simp add: c)
  show ?case
  proof (cases "schedule_single_location loc (schedule g) ds de")
    case (Some r)
    with Cons.prems(1) have
      cl: "clusters' = (cid, g\<lparr>schedule := sort_key start_time (schedule g @ [r])\<rparr>) # cs"
      by (simp add: c)
    from placement_tidy [OF tg assms(3,4,5) Some]
    have "tidy (sort_key start_time (schedule g @ [r]))"
      by (intro tidy_insert_sorted [OF tg]) simp_all
    then show ?thesis
      using Cons.prems(2) by (simp add: cl)
  next
    case None
    with Cons.prems(1) obtain rest where
      rest: "try_clusters loc cs ds de = Some rest" "clusters' = (cid, g) # rest"
      by (auto simp: c)
    from Cons.IH [OF rest(1)] Cons.prems(2) tg show ?thesis
      by (simp add: rest(2))
  qed
qed

lemma rescue_loop_tidy:
  assumes "rescue_loop locations clusters new_unvisitable ds de = (clusters', unvis')"
    and "\<forall>c\<in>set clusters. tidy (schedule (snd c))"
    and "\<forall>l\<in>set locations. well_formed l"
    and ds: "valid_time ds" and de: "valid_time de"
  shows "\<forall>c\<in>set clusters'. tidy (schedule (snd c))"
  using assms(1,2,3)
proof (induction locations arbitrary: clusters new_unvisitable)
  case Nil
  then show ?case by simp
next
  case (Cons l ls)
  show ?case
  proof (cases "try_clusters l clusters ds de")
    case None
    with Cons.prems(1) have
      "rescue_loop ls clusters (new_unvisitable @ [l]) ds de = (clusters', unvis')"
      by simp
    from Cons.IH [OF this Cons.prems(2)] Cons.prems(3) show ?thesis by simp
  next
    case (Some mid)
    with Cons.prems(1) have loop: "rescue_loop ls mid new_unvisitable ds de = (clusters', unvis')"
      by simp
    have "\<forall>c\<in>set mid. tidy (schedule (snd c))"
      using try_clusters_tidy [OF Some Cons.prems(2) ds de] Cons.prems(3) by simp
    from Cons.IH [OF loop this] Cons.prems(3) show ?thesis by simp
  qed
qed

lemma iterative_default:
  "iterative_schedule_cluster score km cluster ds de 20 =
   Some (schedule_cluster_with_priorities score km cluster ds de)"
proof -
  have "(20::nat) = Suc 19" by simp
  then show ?thesis
    unfolding iterative_schedule_cluster_def
    by (simp only: multi_start_constant_None option.map snd_conv)
qed

lemma require_results_parallel:
  "require_results (parallel_schedule_clusters score km best_clusters ds de) =
   Some (scheduled_groups score km best_clusters ds de)"
  by (induction best_clusters)
     (auto simp: parallel_schedule_clusters_def scheduled_groups_def iterative_default)

lemma schedule_and_rescue_eq:
  "schedule_and_rescue score km best_clusters ds de =
   Inr (handle_unvisitable
          (concat (map (\<lambda>c. unvisitable (snd c)) (scheduled_groups score km best_clusters ds de)))
          (scheduled_groups score km best_clusters ds de) ds de)"
  by (simp add: schedule_and_rescue_def require_results_parallel)

text \<open>
  Claim C1, for locations with a positive duration. If the daily window and the opening and
  closing times are times of day and every location of every group takes a positive number
  of hours, then the schedule the group scheduler returns for each group is sorted by
  start time with \<open>entries[i].end \<le> entries[i+1].start\<close>, the scheduling of all groups
  followed by the rescue pass returns a result, and every group's schedule after the rescue
  pass has the same two properties.
\<close>

theorem schedules_ordered:
  assumes ds: "valid_time daily_start" and de: "valid_time daily_end"
    and wf: "\<forall>c\<in>set best_clusters. \<forall>l\<in>set (snd c). well_formed l"
  shows "(\<forall>c\<in>set best_clusters.
            ordered_schedule
              (schedule (schedule_cluster_with_priorities score km (snd c) daily_start daily_end))) \<and>
         (\<exists>clusters unvis.
            schedule_and_rescue score km best_clusters daily_start daily_end = Inr (clusters, unvis) \<and>
            (\<forall>c\<in>set clusters. ordered_schedule (schedule (snd c))))"
proof -
  let ?groups = "scheduled_groups score km best_clusters daily_start daily_end"
  let ?left = "concat (map (\<lambda>c. unvisitable (snd c)) ?groups)"
  have groups: "\<forall>c\<in>set ?groups. tidy (schedule (snd c))"
    using wf by (auto simp: scheduled_groups_def intro!: scheduler_tidy [OF ds de])
  have left: "\<forall>l\<in>set ?left. well_formed l"
  proof
    fix l assume "l \<in> set ?left"
    then obtain c where c: "c \<in> set best_clusters"
      "l \<in> set (unvisitable (schedule_cluster_with_priorities score km (snd c) daily_start daily_end))"
      by (auto simp: scheduled_groups_def)
    with scheduler_unvisitable_subset have "l \<in> set (snd c)" by blast
    with wf c(1) show "well_formed l" by blast
  qed
  obtain clusters unvis where
    res: "handle_unvisitable ?left ?groups daily_start daily_end = (clusters, unvis)"
    by (cases "handle_unvisitable ?left ?groups daily_start daily_end")
  then have "\<forall>c\<in>set clusters. tidy (schedule (snd c))"
    unfolding handle_unvisitable_def
    by (rule rescue_loop_tidy [OF _ groups left ds de])
  then have "\<forall>c\<in>set clusters. ordered_schedule (schedule (snd c))"
    by (blast intro: tidy_ordered)
  moreover have "schedule_and_rescue score km best_clusters daily_start daily_end
                 = Inr (clusters, unvis)"
    by (simp add: schedule_and_rescue_eq res)
  moreover have "\<forall>c\<in>set best_clusters.
            ordered_schedule
              (schedule (schedule_cluster_with_priorities score km (snd c) daily_start daily_end))"
    using wf by (blast intro: tidy_ordered scheduler_tidy [OF ds de])
  ultimately show ?thesis by blast
qed

theorem schedules_ordered_witness:
  "valid_time 480 \<and> valid_time 1200 \<and>
   well_formed loc_A \<and> well_formed loc_B \<and> well_formed loc_F \<and> well_formed loc_E \<and>
   ordered_schedule (schedule (schedule_cluster_with_priorities (calculate_score stand_in_km)
      stand_in_text [loc_A, loc_B, loc_F] 480 1200)) \<and>
   map_sum id (\<lambda>p. (map (\<lambda>c. map (\<lambda>e. (e_name e, start_time e, end_time e)) (schedule (snd c)))
                      (fst p), map name (snd p)))
     (schedule_and_rescue (calculate_score stand_in_km) stand_in_text example_clusters 480 1200)
   = Inr ([[(''B'', 480, 540), (''A'', 540, 600)], [(''F'', 480, 540), (''E'', 600, 660)]], [])"
  using schedules_ordered [of 480 1200 example_clusters "calculate_score stand_in_km" stand_in_text]
  by (simp add: valid_time_def well_formed_def example_clusters_def loc_F_def loc_E_def
      schedule_and_rescue_eq scheduled_groups_def handle_unvisitable_def example_defs)

text \<open>
  Claim C1 as stated, for every input: B and Z both open at 08:00 and Z takes zero hours.
  The group scheduler places B from 08:00 to 09:00, then Z at 08:00 (the slot before the
  first entry) and appends it, so the first entry ends after the second one starts.
\<close>

theorem zero_duration_overlap:
  "\<not> ordered_schedule
       (schedule (schedule_cluster_with_priorities (calculate_score stand_in_km) stand_in_text
          [loc_B, loc_Z] 480 1200))"
proof -
  let ?s = "schedule (schedule_cluster_with_priorities (calculate_score stand_in_km) stand_in_text
          [loc_B, loc_Z] 480 1200)"
  have "map (\<lambda>e. (e_name e, start_time e, end_time e)) ?s = [(''B'', 480, 540), (''Z'', 480, 480)]"
    by (simp add: loc_Z_def example_defs)
  then have "length ?s = 2" "end_time (?s ! 0) = 540" "start_time (?s ! 1) = 480"
    by (auto simp: map_eq_Cons_conv)
  then show ?thesis
    by (auto simp: ordered_schedule_def dest!: spec [of _ 0])
qed

section \<open>Configuration errors\<close>

lemma assign_locations_error:
  "assign_locations locations labels best_clusters = Inl e \<Longrightarrow> e = KeyError"
  by (induction locations labels best_clusters rule: assign_locations.induct)
     (auto split: option.splits)

lemma select_best_error:
  "select_best locations k results best = Inl e \<Longrightarrow> e = KeyError"
proof (induction results arbitrary: best)
  case Nil
  then show ?case by simp
next
  case (Cons r results)
  obtain labels silhouette balance where r: "r = (labels, silhouette, balance)"
    by (cases r)
  from Cons.prems show ?case
    unfolding r
    by (auto simp: Let_def split: if_splits sum.splits dest: assign_locations_error Cons.IH)
qed

lemma parallel_find_best_clusters_error:
  "parallel_find_best_clusters locations k results = Inl e \<Longrightarrow> e = KeyError"
  by (auto simp: parallel_find_best_clusters_def split: sum.splits dest: select_best_error)

lemma cluster_data_invalid:
  assumes "validate_request data = Some e"
  shows "cluster_data scale run_clusterings score km data = Inl e"
  using assms by (simp add: cluster_data_def Let_def)

lemma cluster_data_valid:
  assumes "validate_request data = None"
  shows "\<not> is_configuration_error (cluster_data scale run_clusterings score km data)"
proof -
  have "e \<noteq> HTTPException code msg"
    if "cluster_data scale run_clusterings score km data = Inl e" for e code msg
    using that assms
    by (auto simp: cluster_data_def Let_def schedule_and_rescue_eq
        split: option.splits sum.splits if_splits prod.splits
        dest: parallel_find_best_clusters_error)
  then show ?thesis
    by (cases "cluster_data scale run_clusterings score km data" rule: is_configuration_error.cases)
       auto
qed

lemma validate_request_iff:
  "validate_request data \<noteq> None \<longleftrightarrow>
   num_clusters data < 1 \<or> int (length (points data)) < num_clusters data"
  by (simp add: validate_request_def)

lemma validate_request_error:
  "validate_request data = Some e \<Longrightarrow> is_configuration_error (Inl e :: error + response)"
  by (auto simp: validate_request_def split: if_splits)

text \<open>
  Claim C6, without the clause on distinct points. Whatever the numeric libraries and the
  scheduler do, the endpoint fails with a configuration error exactly when the group count
  is below 1 or above the number of locations; and in that case the result does not depend
  on the clustering or the scheduling at all: the error is decided before either is
  called, and it is the whole result.
\<close>

theorem configuration_error_iff:
  "(is_configuration_error (cluster_data scale run_clusterings score km data) \<longleftrightarrow>
      num_clusters data < 1 \<or> int (length (points data)) < num_clusters data) \<and>
   (num_clusters data < 1 \<or> int (length (points data)) < num_clusters data \<longrightarrow>
      cluster_data scale run_clusterings score km data =
        cluster_data scale' run_clusterings' score' km' data)"
proof (cases "validate_request data")
  case None
  with cluster_data_valid [OF None] validate_request_iff [of data] show ?thesis
    by simp
next
  case (Some e)
  with cluster_data_invalid [OF Some, of scale run_clusterings score km]
    cluster_data_invalid [OF Some, of scale' run_clusterings' score' km']
    validate_request_error [OF Some] validate_request_iff [of data]
  show ?thesis by simp
qed

theorem configuration_error_iff_witness:
  "int (length (points (twin_request\<lparr>num_clusters := 3\<rparr>))) < num_clusters (twin_request\<lparr>num_clusters := 3\<rparr>) \<and>
   is_configuration_error
     (cluster_data identity_scale failing_runs (calculate_score stand_in_km) stand_in_text
        (twin_request\<lparr>num_clusters := 3\<rparr>)) \<and>
   cluster_data identity_scale failing_runs (calculate_score stand_in_km) stand_in_text
        (twin_request\<lparr>num_clusters := 3\<rparr>) =
     Inl (HTTPException 400 ''Number of clusters cannot exceed number of points'')"
  using configuration_error_iff [of identity_scale failing_runs "calculate_score stand_in_km"
      stand_in_text "twin_request\<lparr>num_clusters := 3\<rparr>" identity_scale failing_runs
      "calculate_score stand_in_km" stand_in_text]
  by (simp add: twin_request_def cluster_data_def validate_request_def)

text \<open>
  Claim C6 as stated, with the clause on distinct points: a request for two groups over two
  locations at the same point has fewer distinct points than groups, passes the
  validation, and ends in the exception of the clustering libraries, not in a
  configuration error.
\<close>

theorem equal_points_accepted:
  "distinct_points twin_request < nat (num_clusters twin_request) \<and>
   validate_request twin_request = None \<and>
   \<not> is_configuration_error
       (cluster_data identity_scale failing_runs (calculate_score stand_in_km) stand_in_text
          twin_request) \<and>
   cluster_data identity_scale failing_runs (calculate_score stand_in_km) stand_in_text
     twin_request = Inl LibraryError"
  by (simp add: distinct_points_def twin_request_def loc_A_def loc_A_twin_def
      validate_request_def cluster_data_def identity_scale_def failing_runs_def)

section \<open>The groups of a clustering partition the locations\<close>

lemma dict_set_fresh: "k \<notin> fst ` set d \<Longrightarrow> dict_set k v d = d @ [(k, v)]"
  by (induction d) auto

lemma locations_dict_from:
  "distinct (map fst d @ map name pts) \<Longrightarrow>
   foldl (\<lambda>d loc. dict_set (name loc) loc d) d pts = d @ map (\<lambda>l. (name l, l)) pts"
proof (induction pts arbitrary: d)
  case Nil
  then show ?case by simp
next
  case (Cons p pts)
  have fresh: "name p \<notin> fst ` set d"
    using Cons.prems by auto
  have "distinct (map fst (d @ [(name p, p)]) @ map name pts)"
    using Cons.prems by auto
  from Cons.IH [OF this] show ?case
    by (simp add: dict_set_fresh [OF fresh])
qed

lemma locations_dict_distinct:
  "distinct (map name pts) \<Longrightarrow> locations_dict pts = map (\<lambda>l. (name l, l)) pts"
  using locations_dict_from [of "[]" pts] by (simp add: locations_dict_def)

lemma append_to_cluster_Some:
  "i \<in> fst ` set clusters \<Longrightarrow>
   \<exists>clusters'. append_to_cluster i x clusters = Some clusters' \<and>
      map fst clusters' = map fst clusters \<and>
      mset (concat (map snd clusters')) = add_mset x (mset (concat (map snd clusters)))"
proof (induction clusters)
  case Nil
  then show ?case by simp
next
  case (Cons c clusters)
  obtain j members where c: "c = (j, members)" by (cases c)
  show ?case
  proof (cases "j = i")
    case True
    then show ?thesis by (simp add: c)
  next
    case False
    with Cons.prems have "i \<in> fst ` set clusters" by (auto simp: c)
    from Cons.IH [OF this] obtain clusters' where
      "append_to_cluster i x clusters = Some clusters'"
      "map fst clusters' = map fst clusters"
      "mset (concat (map snd clusters')) = add_mset x (mset (concat (map snd clusters)))"
      by blast
    with False show ?thesis by (simp add: c)
  qed
qed

lemma assign_locations_Inr:
  assumes "length labels = length locations" "\<forall>l\<in>set labels. l \<in> fst ` set clusters"
  shows "\<exists>clusters'. assign_locations locations labels clusters = Inr clusters' \<and>
      map fst clusters' = map fst clusters \<and>
      mset (concat (map snd clusters')) =
        mset (map snd locations) + mset (concat (map snd clusters))"
  using assms
proof (induction locations arbitrary: labels clusters)
  case Nil
  then show ?case by simp
next
  case (Cons nl locations)
  obtain nm loc where nl: "nl = (nm, loc)" by (cases nl)
  from Cons.prems(1) obtain l ls where labels: "labels = l # ls" "length ls = length locations"
    by (cases labels) auto
  have "l \<in> fst ` set clusters" using Cons.prems(2) labels by simp
  from append_to_cluster_Some [OF this, of loc] obtain mid where
    mid: "append_to_cluster l loc clusters = Some mid" "map fst mid = map fst clusters"
      "mset (concat (map snd mid)) = add_mset loc (mset (concat (map snd clusters)))"
    by blast
  have "fst ` set mid = fst ` set clusters"
    using mid(2) by (metis set_map)
  then have "\<forall>l\<in>set ls. l \<in> fst ` set mid"
    using Cons.prems(2) labels by simp
  from Cons.IH [OF labels(2) this] obtain clusters' where
    "assign_locations locations ls mid = Inr clusters'" "map fst clusters' = map fst mid"
    "mset (concat (map snd clusters')) = mset (map snd locations) + mset (concat (map snd mid))"
    by blast
  then show ?case
    using mid by (simp add: nl labels)
qed

lemma assign_locations_grouping:
  assumes "labels_in_range (length locations) k run"
  shows "\<exists>clusters. assign_locations locations (fst run) (map (\<lambda>i. (i, [])) [0..<k]) = Inr clusters \<and>
           grouping_of locations k clusters"
proof -
  have "length (fst run) = length locations"
    "\<forall>l\<in>set (fst run). l \<in> fst ` set (map (\<lambda>i. (i, [])) [0..<k])"
    using assms by (auto simp: labels_in_range_def image_iff)
  from assign_locations_Inr [OF this] show ?thesis
    by (auto simp: grouping_of_def comp_def)
qed

lemma select_best_step:
  "select_best locations k ((labels, silhouette, balance) # results) best =
     (if (case best of None \<Rightarrow> True
          | Some (bs, bc) \<Rightarrow> (7 / 10) * silhouette + (3 / 10) * (1 - balance) > bs)
      then (case assign_locations locations labels (map (\<lambda>i. (i, [])) [0..<k]) of
              Inl e \<Rightarrow> Inl e
            | Inr clusters \<Rightarrow>
                select_best locations k results
                  (Some ((7 / 10) * silhouette + (3 / 10) * (1 - balance), clusters)))
      else select_best locations k results best)"
  by (simp only: select_best.simps Let_def)

lemma select_best_grouping:
  assumes "\<forall>run\<in>set results. labels_in_range (length locations) k run"
    and "\<forall>s clusters. best = Some (s, clusters) \<longrightarrow> grouping_of locations k clusters"
  shows "\<exists>best'. select_best locations k results best = Inr best' \<and>
           (best' = None \<longrightarrow> best = None \<and> results = []) \<and>
           (\<forall>s clusters. best' = Some (s, clusters) \<longrightarrow> grouping_of locations k clusters)"
  using assms
proof (induction results arbitrary: best)
  case Nil
  then show ?case by simp
next
  case (Cons run results)
  obtain labels silhouette balance where run: "run = (labels, silhouette, balance)"
    by (cases run)
  have rest: "\<forall>run\<in>set results. labels_in_range (length locations) k run"
    using Cons.prems(1) by simp
  define composite where "composite = (7 / 10) * silhouette + (3 / 10) * (1 - balance)"
  show ?case
  proof (cases "case best of None \<Rightarrow> True | Some (bs, bc) \<Rightarrow> composite > bs")
    case True
    have "labels_in_range (length locations) k run"
      using Cons.prems(1) by simp
    from assign_locations_grouping [OF this] obtain clusters where
      cl: "assign_locations locations labels (map (\<lambda>i. (i, [])) [0..<k]) = Inr clusters"
        "grouping_of locations k clusters"
      unfolding run by auto
    have step: "select_best locations k (run # results) best =
                select_best locations k results (Some (composite, clusters))"
      unfolding run select_best_step composite_def [symmetric]
      using True cl(1) by simp
    have "\<forall>s c. Some (composite, clusters) = Some (s, c) \<longrightarrow> grouping_of locations k c"
      using cl(2) by simp
    from Cons.IH [OF rest this] show ?thesis
      unfolding step by auto
  next
    case False
    then have step: "select_best locations k (run # results) best =
                     select_best locations k results best"
      unfolding run select_best_step composite_def [symmetric] by simp
    from False have "best \<noteq> None" by (cases best) simp_all
    with Cons.IH [OF rest Cons.prems(2)] show ?thesis
      unfolding step by auto
  qed
qed

lemma count_concat:
  "count (mset (concat (map snd clusters))) p = sum_list (map (\<lambda>c. count_list (snd c) p) clusters)"
  by (induction clusters) (simp_all add: count_mset)

lemma grouping_partition:
  assumes "distinct (map name pts)" "grouping_of (locations_dict pts) k clusters"
  shows "map fst clusters = [0..<k] \<and> is_partition pts clusters"
proof -
  have d: "distinct pts" using assms(1) by (simp add: distinct_map)
  have "map snd (locations_dict pts) = pts"
    by (simp add: locations_dict_distinct [OF assms(1)] comp_def)
  with assms(2) have g: "map fst clusters = [0..<k]" "mset (concat (map snd clusters)) = mset pts"
    by (simp_all add: grouping_of_def)
  have "sum_list (map (\<lambda>c. count_list (snd c) p) clusters) = 1" if "p \<in> set pts" for p
  proof -
    have "count (mset pts) p = 1"
      using d that by (simp add: distinct_count_atmost_1)
    then show ?thesis
      using g(2) count_concat [of clusters p] by simp
  qed
  with g show ?thesis by (simp add: is_partition_def)
qed

text \<open>
  Claim C7. With unique location names and clustering runs that label every location with
  a group index below the group count: the cluster search over a non-empty list of runs
  accepts a result; every result it accepts has the group ids \<open>0 ..< k\<close>, the groups
  together are the input locations, and every input location is in exactly one group; the
  same holds for the single group built when one group is requested.
\<close>

theorem clusters_partition:
  assumes names: "distinct (map name pts)"
    and runs: "\<forall>run\<in>set results. labels_in_range (length pts) k run"
  shows "(results \<noteq> [] \<longrightarrow>
            (\<exists>clusters. parallel_find_best_clusters (locations_dict pts) k results
                          = Inr (Some clusters))) \<and>
         (\<forall>clusters. parallel_find_best_clusters (locations_dict pts) k results
                       = Inr (Some clusters) \<longrightarrow>
            map fst clusters = [0..<k] \<and> is_partition pts clusters) \<and>
         map fst (single_cluster (locations_dict pts)) = [0] \<and>
         is_partition pts (single_cluster (locations_dict pts))"
proof -
  have len: "length (locations_dict pts) = length pts"
    by (simp add: locations_dict_distinct [OF names])
  have "\<forall>run\<in>set results. labels_in_range (length (locations_dict pts)) k run"
    using runs len by simp
  from select_best_grouping [OF this, of None] obtain best' where
    best: "select_best (locations_dict pts) k results None = Inr best'"
      "best' = None \<longrightarrow> results = []"
      "\<forall>s clusters. best' = Some (s, clusters) \<longrightarrow> grouping_of (locations_dict pts) k clusters"
    by auto
  have found: "parallel_find_best_clusters (locations_dict pts) k results
               = Inr (map_option snd best')"
    using best(1) by (simp add: parallel_find_best_clusters_def)
  have one: "grouping_of (locations_dict pts) 1 (single_cluster (locations_dict pts))"
    by (simp add: grouping_of_def single_cluster_def)
  have accepted: "map fst clusters = [0..<k] \<and> is_partition pts clusters"
    if "parallel_find_best_clusters (locations_dict pts) k results = Inr (Some clusters)"
    for clusters
  proof -
    from that found obtain s where "best' = Some (s, clusters)" by auto
    with best(3) have "grouping_of (locations_dict pts) k clusters" by blast
    then show ?thesis by (rule grouping_partition [OF names])
  qed
  have nonempty: "\<exists>clusters. parallel_find_best_clusters (locations_dict pts) k results
                          = Inr (Some clusters)" if "results \<noteq> []"
    using that best(2) found by (cases best') auto
  have single: "map fst (single_cluster (locations_dict pts)) = [0] \<and>
         is_partition pts (single_cluster (locations_dict pts))"
    using grouping_partition [OF names one] by simp
  show ?thesis
    using accepted nonempty single by blast
qed

theorem clusters_partition_witness:
  "distinct (map name [loc_A, loc_B, loc_C]) \<and>
   list_all (labels_in_range (length [loc_A, loc_B, loc_C]) 2) example_runs \<and>
   example_runs \<noteq> [] \<and>
   parallel_find_best_clusters (locations_dict [loc_A, loc_B, loc_C]) 2 example_runs
     = Inr (Some [(0, [loc_C]), (1, [loc_A, loc_B])]) \<and>
   is_partition [loc_A, loc_B, loc_C] [(0, [loc_C]), (1, [loc_A, loc_B])]"
  using clusters_partition [of "[loc_A, loc_B, loc_C]" example_runs 2]
  by (simp add: example_runs_def labels_in_range_def parallel_find_best_clusters_def
      locations_dict_def loc_A_def loc_B_def loc_C_def eval_nat_numeral)

section \<open>The weight floor of the centroid update\<close>

lemma penalty_weight_floor: "1 / 100 \<le> penalty_weight penalty_factor penalty_threshold distance"
  by (simp add: penalty_weight_def)

lemma cluster_weights_floor:
  "w \<in> set (cluster_weights penalty_threshold penalty_factor data assignments centroids c) \<Longrightarrow>
   1 / 100 \<le> w"
  using penalty_weight_floor by (auto simp: cluster_weights_def)

lemma length_cluster_weights:
  "length (cluster_weights penalty_threshold penalty_factor data assignments centroids c) =
   length (cluster_members data assignments c)"
  by (simp add: cluster_weights_def)

lemma sum_list_floor:
  "(\<And>w. w \<in> set ws \<Longrightarrow> 1 / 100 \<le> w) \<Longrightarrow> real (length ws) / 100 \<le> sum_list ws"
proof (induction ws)
  case Nil
  then show ?case by simp
next
  case (Cons w ws)
  have "1 / 100 \<le> w" "real (length ws) / 100 \<le> sum_list ws"
    using Cons by simp_all
  then show ?case by (simp add: field_simps)
qed

lemma weight_sum_positive:
  assumes "cluster_members data assignments c \<noteq> []"
  shows "0 < sum_list (cluster_weights penalty_threshold penalty_factor data assignments centroids c)"
proof -
  let ?ws = "cluster_weights penalty_threshold penalty_factor data assignments centroids c"
  have "0 < length ?ws"
    using assms by (simp add: length_cluster_weights)
  then have "0 < real (length ?ws) / 100" by simp
  also have "\<dots> \<le> sum_list ?ws"
    by (rule sum_list_floor) (rule cluster_weights_floor)
  finally show ?thesis .
qed

text \<open>
  Claim C8. In the centroid update every weight
  \<open>max (1 - penalty_factor * max (distance - penalty_threshold) 0) 0.01\<close> is at least
  0.01, for every distance, threshold and factor; so every weight of a group is at least
  0.01, the weight sum of a group with a member is positive, and no centroid is divided by
  zero; a group without members keeps its previous centroid, and nothing is divided.
\<close>

theorem weight_floor:
  "1 / 100 \<le> penalty_weight penalty_factor penalty_threshold distance \<and>
   (\<forall>w\<in>set (cluster_weights penalty_threshold penalty_factor data assignments centroids c).
      1 / 100 \<le> w) \<and>
   (cluster_members data assignments c \<noteq> [] \<longrightarrow>
      0 < sum_list (cluster_weights penalty_threshold penalty_factor data assignments centroids c)) \<and>
   new_centroid penalty_threshold penalty_factor data assignments centroids c \<noteq> None \<and>
   (cluster_members data assignments c = [] \<longrightarrow>
      new_centroid penalty_threshold penalty_factor data assignments centroids c
        = Some (centroids ! c)) \<and>
   None \<notin> set (compute_new_centroids data assignments centroids penalty_threshold penalty_factor)"
proof -
  have some: "new_centroid pt pf data assignments centroids c' \<noteq> None" for pt pf c'
  proof (cases "cluster_members data assignments c' = []")
    case True
    then show ?thesis by (simp add: new_centroid_def)
  next
    case False
    from weight_sum_positive [OF this, of pt pf centroids]
    show ?thesis using False by (simp add: new_centroid_def Let_def)
  qed
  have "x \<noteq> None"
    if "x \<in> set (compute_new_centroids data assignments centroids penalty_threshold penalty_factor)"
    for x
    using that some by (auto simp: compute_new_centroids_def)
  then have "None \<notin> set (compute_new_centroids data assignments centroids penalty_threshold penalty_factor)"
    by blast
  moreover have "cluster_members data assignments c = [] \<longrightarrow>
      new_centroid penalty_threshold penalty_factor data assignments centroids c
        = Some (centroids ! c)"
    by (simp add: new_centroid_def)
  ultimately show ?thesis
    using penalty_weight_floor cluster_weights_floor weight_sum_positive some
    by blast
qed

theorem weight_floor_witness:
  "penalty_weight (1 / 2) (3 / 10) 4 = 1 / 100 \<and>
   cluster_members example_points [0, 0, 1] 0 \<noteq> [] \<and>
   cluster_weights (3 / 10) (1 / 2) example_points [0, 0, 1] example_centroids 0 = [1, 13 / 20] \<and>
   cluster_members example_points [0, 0, 1] 2 = [] \<and>
   compute_new_centroids example_points [0, 0, 1] example_centroids (3 / 10) (1 / 2)
     = [Some [13 / 33, 0], Some [5, 5], Some [9, 9]]"
  using weight_floor [of "1 / 2" "3 / 10" 4 example_points "[0, 0, 1]" example_centroids 0]
    weight_floor [of "1 / 2" "3 / 10" 4 example_points "[0, 0, 1]" example_centroids 2]
  by (simp add: penalty_weight_def cluster_members_def cluster_weights_def
      compute_new_centroids_def new_centroid_def example_points_def example_centroids_def
      euclidean_norm_def Let_def eval_nat_numeral upt_rec)

end
